theory Spec2Isabelle
  imports Main "HOL-Library.Word"
begin

unbundle bit_operations_syntax

section \<open>Package mqtt: the wire codec (internal/mqtt)\<close>

text \<open>
  Go's \<open>byte\<close> is an 8-bit word and \<open>uint16\<close> a 16-bit word. A Go \<open>string\<close> is a
  sequence of bytes; it is modelled by \<open>string\<close> (a list of 8-bit characters), so that
  \<open>len(s)\<close> is \<open>length s\<close> and \<open>s[i]\<close> is \<open>s ! i\<close>. Lengths and the \<open>int\<close> remaining
  length are natural numbers: the code never makes them negative, and where it subtracts
  (\<open>DecodePublishPacket\<close>) the subtraction is done on \<open>int\<close>.
\<close>

type_synonym byte = "8 word"
type_synonym uint16 = "16 word"

definition bytes_of_string :: "string \<Rightarrow> byte list" where
  "bytes_of_string s = map (\<lambda>c. of_char c) s"

definition string_of_bytes :: "byte list \<Rightarrow> string" where
  "string_of_bytes bs = map (\<lambda>b. char_of (unat b)) bs"

text \<open>Errors are values: \<open>io.EOF\<close>, \<open>io.ErrUnexpectedEOF\<close>, \<open>fmt.Errorf\<close> with and without \<open>%w\<close>.\<close>

datatype error = EOF | ErrUnexpectedEOF | Errorf string | Wrap string error

definition bindE :: "error + 'a \<Rightarrow> ('a \<Rightarrow> error + 'b) \<Rightarrow> error + 'b" where
  "bindE x f = (case x of Inl e \<Rightarrow> Inl e | Inr v \<Rightarrow> f v)"

definition wrapE :: "string \<Rightarrow> error + 'a \<Rightarrow> error + 'a" where
  "wrapE msg x = (case x of Inl e \<Rightarrow> Inl (Wrap msg e) | Inr v \<Rightarrow> Inr v)"

text \<open>The packet types, constants of type \<open>PacketType\<close> (a byte).\<close>

definition CONNECT :: byte where "CONNECT = 1"
definition CONNACK :: byte where "CONNACK = 2"
definition PUBLISH :: byte where "PUBLISH = 3"
definition PUBACK :: byte where "PUBACK = 4"
definition PUBREC :: byte where "PUBREC = 5"
definition PUBREL :: byte where "PUBREL = 6"
definition PUBCOMP :: byte where "PUBCOMP = 7"
definition SUBSCRIBE :: byte where "SUBSCRIBE = 8"
definition SUBACK :: byte where "SUBACK = 9"
definition UNSUBSCRIBE :: byte where "UNSUBSCRIBE = 10"
definition UNSUBACK :: byte where "UNSUBACK = 11"
definition PINGREQ :: byte where "PINGREQ = 12"
definition PINGRESP :: byte where "PINGRESP = 13"
definition DISCONNECT :: byte where "DISCONNECT = 14"

record FixedHeader =
  PacketType :: byte
  Flags :: byte
  RemainingLen :: nat

record ConnectPacket =
  ProtocolName :: string
  ProtocolVersion :: byte
  CleanSession :: bool
  WillFlag :: bool
  WillQoS :: byte
  WillRetain :: bool
  PasswordFlag :: bool
  UsernameFlag :: bool
  KeepAlive :: uint16
  ClientID :: string
  WillTopic :: string
  WillMessage :: "byte list"
  Username :: string
  Password :: "byte list"

record ConnackPacket =
  SessionPresent :: bool
  ReturnCode :: byte

record PublishPacket =
  Dup :: bool
  QoS :: byte
  Retain :: bool
  Topic :: string
  PacketID :: uint16
  Payload :: "byte list"

record PubackPacket =
  PacketID :: uint16

record Subscription =
  Topic :: string
  QoS :: byte

record SubscribePacket =
  PacketID :: uint16
  Topics :: "Subscription list"

record SubackPacket =
  PacketID :: uint16
  ReturnCodes :: "byte list"

record UnsubscribePacket =
  PacketID :: uint16
  Topics :: "string list"

record UnsubackPacket =
  PacketID :: uint16

text \<open>
  A reader is the list of bytes still to be read. \<open>io.ReadFull(r, buf)\<close> with
  \<open>len(buf) = n\<close> returns the next \<open>n\<close> bytes and the rest of the reader, \<open>io.EOF\<close> when
  nothing is left and \<open>io.ErrUnexpectedEOF\<close> when fewer than \<open>n\<close> bytes are.
\<close>

definition ReadFull :: "byte list \<Rightarrow> nat \<Rightarrow> error + byte list \<times> byte list" where
  "ReadFull r n =
     (if n \<le> length r then Inr (take n r, drop n r)
      else if r = [] then Inl EOF
      else Inl ErrUnexpectedEOF)"

definition Uint16 :: "byte list \<Rightarrow> uint16" where
  "Uint16 b = push_bit 8 (ucast (b ! 0)) OR ucast (b ! 1)"

definition PutUint16 :: "uint16 \<Rightarrow> byte list" where
  "PutUint16 v = [ucast (drop_bit 8 v), ucast v]"

text \<open>\<open>ConnackPacket.Encode\<close>, \<open>PubackPacket.Encode\<close>, \<open>SubackPacket.Encode\<close>,
  \<open>UnsubackPacket.Encode\<close> and \<open>PingrespPacket.Encode\<close> cannot fail: their error is always nil.\<close>

definition ConnackPacket_Encode :: "ConnackPacket \<Rightarrow> byte list" where
  "ConnackPacket_Encode c =
     [push_bit 4 CONNACK, 2, if SessionPresent c then 1 else 0, ReturnCode c]"

text \<open>\<open>PublishPacket.Encode\<close> is the stub of the source: it returns the error, whatever the packet.\<close>

definition PublishPacket_Encode :: "PublishPacket \<Rightarrow> error + byte list" where
  "PublishPacket_Encode p = Inl (Errorf ''PUBLISH encoding not yet implemented'')"

definition PubackPacket_Encode :: "PubackPacket \<Rightarrow> byte list" where
  "PubackPacket_Encode p = [push_bit 4 PUBACK, 2] @ PutUint16 (PubackPacket.PacketID p)"

definition SubackPacket_Encode :: "SubackPacket \<Rightarrow> byte list" where
  "SubackPacket_Encode s =
     [push_bit 4 SUBACK, of_nat (2 + length (ReturnCodes s))]
     @ PutUint16 (SubackPacket.PacketID s) @ ReturnCodes s"

definition UnsubackPacket_Encode :: "UnsubackPacket \<Rightarrow> byte list" where
  "UnsubackPacket_Encode u = [push_bit 4 UNSUBACK, 2] @ PutUint16 (UnsubackPacket.PacketID u)"

definition PingrespPacket_Encode :: "byte list" where
  "PingrespPacket_Encode = [push_bit 4 PINGRESP, 0]"

text \<open>\<open>ReadFixedHeader\<close>: the loop over the bytes of the remaining length reads one byte per
  round (\<open>io.ReadFull\<close> of one byte: \<open>io.EOF\<close> on the empty reader).\<close>

fun readRemainingLen :: "byte list \<Rightarrow> nat \<Rightarrow> nat \<Rightarrow> error + nat \<times> byte list" where
  "readRemainingLen [] multiplier val = Inl EOF"
| "readRemainingLen (b # r) multiplier val =
     (let val' = val + unat (b AND 0x7F) * multiplier in
      if b AND 0x80 = 0 then Inr (val', r)
      else
        (let multiplier' = multiplier * 128 in
         if multiplier' > 128 * 128 * 128 then Inl (Errorf ''malformed remaining length'')
         else readRemainingLen r multiplier' val'))"

definition ReadFixedHeader :: "byte list \<Rightarrow> error + FixedHeader \<times> byte list" where
  "ReadFixedHeader r =
     bindE (ReadFull r 1) (\<lambda>(buf, r1).
     bindE (readRemainingLen r1 1 0) (\<lambda>(val, r2).
     Inr (\<lparr>PacketType = drop_bit 4 (buf ! 0) AND 0x0F,
           Flags = buf ! 0 AND 0x0F,
           RemainingLen = val\<rparr>, r2)))"

definition ReadString :: "byte list \<Rightarrow> error + string \<times> byte list" where
  "ReadString r =
     bindE (ReadFull r 2) (\<lambda>(lenBuf, r1).
     let len = Uint16 lenBuf in
     if len = 0 then Inr ([], r1)
     else bindE (ReadFull r1 (unat len)) (\<lambda>(strBuf, r2). Inr (string_of_bytes strBuf, r2)))"

definition WriteString :: "string \<Rightarrow> byte list" where
  "WriteString s = PutUint16 (of_nat (length s)) @ bytes_of_string s"

definition DecodeConnectPacket :: "byte list \<Rightarrow> nat \<Rightarrow> error + ConnectPacket" where
  "DecodeConnectPacket r remainingLen =
     bindE (wrapE ''failed to read protocol name'' (ReadString r)) (\<lambda>(protocolName, r1).
     bindE (ReadFull r1 1) (\<lambda>(versionBuf, r2).
     bindE (ReadFull r2 1) (\<lambda>(flagsBuf, r3).
     let flags = flagsBuf ! 0;
         usernameFlag = (flags AND 0x80) > 0;
         passwordFlag = (flags AND 0x40) > 0;
         willRetain = (flags AND 0x20) > 0;
         willQoS = drop_bit 3 flags AND 0x03;
         willFlag = (flags AND 0x04) > 0;
         cleanSession = (flags AND 0x02) > 0
     in
     bindE (ReadFull r3 2) (\<lambda>(keepAliveBuf, r4).
     bindE (wrapE ''failed to read client ID'' (ReadString r4)) (\<lambda>(clientID, r5).
     bindE (if willFlag then
              bindE (ReadString r5) (\<lambda>(willTopic, r6).
              bindE (ReadFull r6 2) (\<lambda>(willMsgLen, r7).
              bindE (ReadFull r7 (unat (Uint16 willMsgLen))) (\<lambda>(willMessage, r8).
              Inr (willTopic, willMessage, r8))))
            else Inr ([], [], r5)) (\<lambda>(willTopic, willMessage, r8).
     bindE (if usernameFlag then ReadString r8 else Inr ([], r8)) (\<lambda>(username, r9).
     bindE (if passwordFlag then
              bindE (ReadFull r9 2) (\<lambda>(pwdLen, r10).
              bindE (ReadFull r10 (unat (Uint16 pwdLen))) (\<lambda>(password, r11).
              Inr (password, r11)))
            else Inr ([], r9)) (\<lambda>(password, r11).
     Inr \<lparr>ProtocolName = protocolName,
          ProtocolVersion = versionBuf ! 0,
          CleanSession = cleanSession,
          WillFlag = willFlag,
          WillQoS = willQoS,
          WillRetain = willRetain,
          PasswordFlag = passwordFlag,
          UsernameFlag = usernameFlag,
          KeepAlive = Uint16 keepAliveBuf,
          ClientID = clientID,
          WillTopic = willTopic,
          WillMessage = willMessage,
          Username = username,
          Password = password\<rparr>))))))))"

definition DecodePublishPacket :: "byte list \<Rightarrow> FixedHeader \<Rightarrow> error + PublishPacket" where
  "DecodePublishPacket r header =
     (let dup = (Flags header AND 0x08) > 0;
          qos = drop_bit 1 (Flags header) AND 0x03;
          retain = (Flags header AND 0x01) > 0
      in
      bindE (wrapE ''failed to read topic'' (ReadString r)) (\<lambda>(topic, r1).
      bindE (if qos > 0 then
               bindE (ReadFull r1 2) (\<lambda>(packetIDBuf, r2).
               Inr (Uint16 packetIDBuf, 2 + length topic + 2, r2))
             else Inr (0, 2 + length topic, r1)) (\<lambda>(packetID, bytesRead, r2).
      let payloadLen = int (RemainingLen header) - int bytesRead in
      bindE (if payloadLen > 0 then
               bindE (ReadFull r2 (nat payloadLen)) (\<lambda>(payload, r3). Inr payload)
             else Inr []) (\<lambda>payload.
      Inr \<lparr>Dup = dup, QoS = qos, Retain = retain, Topic = topic,
           PacketID = packetID, Payload = payload\<rparr>))))"

text \<open>The loops of \<open>DecodeSubscribePacket\<close> and \<open>DecodeUnsubscribePacket\<close>
  (\<open>for bytesRead < remainingLen\<close>): every round adds at least two to \<open>bytesRead\<close>.\<close>

function subscribeTopics ::
  "byte list \<Rightarrow> nat \<Rightarrow> nat \<Rightarrow> Subscription list \<Rightarrow> error + Subscription list" where
  "subscribeTopics r remainingLen bytesRead topics =
     (if bytesRead < remainingLen then
        (case wrapE ''failed to read topic filter'' (ReadString r) of
           Inl e \<Rightarrow> Inl e
         | Inr (topic, r1) \<Rightarrow>
             (case ReadFull r1 1 of
                Inl e \<Rightarrow> Inl e
              | Inr (qosBuf, r2) \<Rightarrow>
                  subscribeTopics r2 remainingLen (bytesRead + 2 + length topic + 1)
                    (topics @ [\<lparr>Subscription.Topic = topic, QoS = qosBuf ! 0\<rparr>])))
      else Inr topics)"
  by pat_completeness auto
termination
  by (relation "measure (\<lambda>(r, remainingLen, bytesRead, topics). remainingLen - bytesRead)") auto

declare subscribeTopics.simps [simp del]

definition DecodeSubscribePacket :: "byte list \<Rightarrow> nat \<Rightarrow> error + SubscribePacket" where
  "DecodeSubscribePacket r remainingLen =
     bindE (ReadFull r 2) (\<lambda>(packetIDBuf, r1).
     bindE (subscribeTopics r1 remainingLen 2 []) (\<lambda>topics.
     Inr \<lparr>SubscribePacket.PacketID = Uint16 packetIDBuf, Topics = topics\<rparr>))"

function unsubscribeTopics ::
  "byte list \<Rightarrow> nat \<Rightarrow> nat \<Rightarrow> string list \<Rightarrow> error + string list" where
  "unsubscribeTopics r remainingLen bytesRead topics =
     (if bytesRead < remainingLen then
        (case wrapE ''failed to read topic filter'' (ReadString r) of
           Inl e \<Rightarrow> Inl e
         | Inr (topic, r1) \<Rightarrow>
             unsubscribeTopics r1 remainingLen (bytesRead + 2 + length topic) (topics @ [topic]))
      else Inr topics)"
  by pat_completeness auto
termination
  by (relation "measure (\<lambda>(r, remainingLen, bytesRead, topics). remainingLen - bytesRead)") auto

declare unsubscribeTopics.simps [simp del]

definition DecodeUnsubscribePacket :: "byte list \<Rightarrow> nat \<Rightarrow> error + UnsubscribePacket" where
  "DecodeUnsubscribePacket r remainingLen =
     bindE (ReadFull r 2) (\<lambda>(packetIDBuf, r1).
     bindE (unsubscribeTopics r1 remainingLen 2 []) (\<lambda>topics.
     Inr \<lparr>UnsubscribePacket.PacketID = Uint16 packetIDBuf, Topics = topics\<rparr>))"

section \<open>Package server: topic matching (internal/server/server.go)\<close>

text \<open>\<open>splitTopic\<close>: the loop over the indices \<open>i\<close> of the topic carries \<open>levels\<close> and
  \<open>start\<close>; the last level is added only when \<open>start < len(topic)\<close>.\<close>

definition splitStep :: "string \<Rightarrow> nat \<Rightarrow> string list \<times> nat \<Rightarrow> string list \<times> nat" where
  "splitStep topic = (\<lambda>i (levels, start).
     if topic ! i = CHR ''/''
     then (levels @ [take (i - start) (drop start topic)], i + 1)
     else (levels, start))"

definition splitFinish :: "string \<Rightarrow> string list \<times> nat \<Rightarrow> string list" where
  "splitFinish topic = (\<lambda>(levels, start).
     if start < length topic then levels @ [drop start topic] else levels)"

definition splitTopic :: "string \<Rightarrow> string list" where
  "splitTopic topic =
     (if topic = [] then []
      else splitFinish topic (fold (splitStep topic) [0..<length topic] ([], 0)))"

text \<open>\<open>topicMatch\<close>: the loop over \<open>si\<close> and \<open>pi\<close> either returns from inside (\<open>Inl\<close>) or
  ends with the two indices (\<open>Inr\<close>).\<close>

function topicMatchLoop ::
  "string list \<Rightarrow> string list \<Rightarrow> nat \<Rightarrow> nat \<Rightarrow> bool + nat \<times> nat" where
  "topicMatchLoop subLevels pubLevels si pi =
     (if si < length subLevels \<and> pi < length pubLevels then
        (let subLevel = subLevels ! si; pubLevel = pubLevels ! pi in
         if subLevel = ''#'' then Inl True
         else if subLevel = ''+'' then topicMatchLoop subLevels pubLevels (si + 1) (pi + 1)
         else if subLevel = pubLevel then topicMatchLoop subLevels pubLevels (si + 1) (pi + 1)
         else Inl False)
      else Inr (si, pi))"
  by pat_completeness auto
termination
  by (relation "measure (\<lambda>(subLevels, pubLevels, si, pi). length subLevels - si)") auto

declare topicMatchLoop.simps [simp del]

definition topicMatch :: "string \<Rightarrow> string \<Rightarrow> bool" where
  "topicMatch subTopic pubTopic =
     (if subTopic = pubTopic then True
      else
        (let subLevels = splitTopic subTopic; pubLevels = splitTopic pubTopic in
         case topicMatchLoop subLevels pubLevels 0 0 of
           Inl b \<Rightarrow> b
         | Inr (si, pi) \<Rightarrow>
             if si < length subLevels \<and> subLevels ! si = ''#'' then True
             else si = length subLevels \<and> pi = length pubLevels))"

text \<open>Two recursions over the data, used to reason about the two loops: the levels of a
  topic read character by character, and the match of two lists of levels.\<close>

fun segments :: "string \<Rightarrow> string \<Rightarrow> string list" where
  "segments cur [] = (if cur = [] then [] else [cur])"
| "segments cur (c # cs) =
     (if c = CHR ''/'' then cur # segments [] cs else segments (cur @ [c]) cs)"

fun levelsMatch :: "string list \<Rightarrow> string list \<Rightarrow> bool" where
  "levelsMatch [] [] = True"
| "levelsMatch [] (t # ts) = False"
| "levelsMatch (f # fs) [] = (f = ''#'')"
| "levelsMatch (f # fs) (t # ts) =
     (if f = ''#'' then True
      else if f = ''+'' then levelsMatch fs ts
      else if f = t then levelsMatch fs ts
      else False)"

section \<open>Package server: the broker state\<close>

text \<open>
  A \<open>net.Conn\<close> is a number; its state is whether it has been closed and the bytes written
  to it so far. A \<open>*Client\<close> is an address in \<open>heap\<close>: the registry \<open>clients\<close> maps a
  client id to an address, and the handler of a connection keeps the address of its own
  client, which need not be the one the registry holds. \<open>retainedMsgs\<close> is \<open>None\<close> for the
  nil map that \<open>New\<close> leaves. \<open>pending\<close> lists the calls \<open>go s.deliverMessage(client, pub,
  subQoS)\<close> that have been started.

  Go leaves the order in which \<open>range\<close> visits a map unspecified. The order is a parameter
  of the model: a \<open>RangeOrder\<close> gives, for every map, the list of keys in the order of the
  visit, and \<open>rangeOK\<close> says that such a list visits every key once.
\<close>

type_synonym conn = nat

record ConnState =
  closed :: bool
  written :: "byte list"

record Client =
  ID :: string
  Conn :: conn
  CleanSession :: bool
  Subscriptions :: "string \<rightharpoonup> byte"

record Server =
  clients :: "string \<rightharpoonup> nat"
  retainedMsgs :: "(string \<rightharpoonup> PublishPacket) option"
  heap :: "nat \<rightharpoonup> Client"
  nextClient :: nat
  conns :: "conn \<Rightarrow> ConnState"
  pending :: "(nat \<times> PublishPacket \<times> byte) list"

record RangeOrder =
  rangeClients :: "(string \<rightharpoonup> nat) \<Rightarrow> string list"
  rangeSubscriptions :: "(string \<rightharpoonup> byte) \<Rightarrow> string list"
  rangeRetained :: "(string \<rightharpoonup> PublishPacket) \<Rightarrow> string list"

definition rangeOK :: "('k \<rightharpoonup> 'v) \<Rightarrow> 'k list \<Rightarrow> bool" where
  "rangeOK m ks = (distinct ks \<and> set ks = dom m)"

text \<open>A handler either returns or panics (a nil map written, a nil pointer read).\<close>

datatype 'a result = Panicked | Returned 'a

definition New :: Server where
  "New = \<lparr>clients = Map.empty, retainedMsgs = None, heap = Map.empty, nextClient = 0,
          conns = (\<lambda>c. \<lparr>closed = False, written = []\<rparr>), pending = []\<rparr>"

definition NewWithConfig :: Server where
  "NewWithConfig = \<lparr>clients = Map.empty, retainedMsgs = Some Map.empty, heap = Map.empty,
          nextClient = 0, conns = (\<lambda>c. \<lparr>closed = False, written = []\<rparr>), pending = []\<rparr>"

text \<open>\<open>conn.Write\<close> fails on a closed connection and writes nothing; \<open>conn.Close\<close>.\<close>

definition Write :: "conn \<Rightarrow> byte list \<Rightarrow> Server \<Rightarrow> Server \<times> bool" where
  "Write c data s =
     (if closed (conns s c) then (s, False)
      else (s\<lparr>conns := (conns s)(c := (conns s c)\<lparr>written := written (conns s c) @ data\<rparr>)\<rparr>,
            True))"

definition Close :: "conn \<Rightarrow> Server \<Rightarrow> Server" where
  "Close c s = s\<lparr>conns := (conns s)(c := (conns s c)\<lparr>closed := True\<rparr>)\<rparr>"

section \<open>Package server: the handlers\<close>

definition handleConnect :: "conn \<Rightarrow> byte list \<Rightarrow> nat \<Rightarrow> Server \<Rightarrow> Server \<times> nat option" where
  "handleConnect conn reader remainingLen s =
     (case DecodeConnectPacket reader remainingLen of
        Inl e \<Rightarrow> (Close conn s, None)
      | Inr connectPkt \<Rightarrow>
          (let client = nextClient s;
               s1 = s\<lparr>heap := (heap s)(client \<mapsto>
                        \<lparr>ID = ClientID connectPkt, Conn = conn,
                         CleanSession = ConnectPacket.CleanSession connectPkt,
                         Subscriptions = Map.empty\<rparr>),
                      nextClient := client + 1\<rparr>;
               s2 = s1\<lparr>clients := (clients s1)(ClientID connectPkt \<mapsto> client)\<rparr>;
               connack = \<lparr>SessionPresent = False, ReturnCode = 0\<rparr>;
               s3 = fst (Write conn (ConnackPacket_Encode connack) s2)
           in (s3, Some client)))"

text \<open>\<open>deliverMessage\<close>: the loop that writes a remaining length of 128 or more, the buffer,
  and the write to the client's connection.\<close>

function encodeRemainingLen :: "nat \<Rightarrow> byte list" where
  "encodeRemainingLen x =
     (if x > 0 then
        (let digit = (of_nat (x mod 128) :: byte);
             x' = x div 128;
             digit' = (if x' > 0 then digit OR 0x80 else digit)
         in digit' # encodeRemainingLen x')
      else [])"
  by pat_completeness auto
termination
  by (relation "measure (\<lambda>x. x)") auto

declare encodeRemainingLen.simps [simp del]

definition deliverQoS :: "PublishPacket \<Rightarrow> byte \<Rightarrow> byte" where
  "deliverQoS pub subQoS =
     (if subQoS < PublishPacket.QoS pub then subQoS else PublishPacket.QoS pub)"

definition deliverBuf :: "PublishPacket \<Rightarrow> byte \<Rightarrow> byte list" where
  "deliverBuf pub subQoS =
     (let qos = deliverQoS pub subQoS;
          fixedHeader0 = push_bit 4 PUBLISH;
          fixedHeader1 = (if Dup pub then fixedHeader0 OR 0x08 else fixedHeader0);
          fixedHeader2 = fixedHeader1 OR push_bit 1 qos;
          fixedHeader = (if Retain pub then fixedHeader2 OR 0x01 else fixedHeader2);
          remainingLen0 = 2 + length (PublishPacket.Topic pub) + length (Payload pub);
          remainingLen = (if qos > 0 then remainingLen0 + 2 else remainingLen0);
          lenBytes = (if remainingLen < 128 then [of_nat remainingLen]
                      else encodeRemainingLen remainingLen);
          idBytes = (if qos > 0 then
                       (let packetID = (if PublishPacket.PacketID pub = 0 then 1
                                        else PublishPacket.PacketID pub)
                        in [ucast (drop_bit 8 packetID), ucast (packetID AND 0xFF)])
                     else [])
      in [fixedHeader] @ lenBytes @ WriteString (PublishPacket.Topic pub) @ idBytes
         @ Payload pub)"

definition deliverMessage :: "nat \<Rightarrow> PublishPacket \<Rightarrow> byte \<Rightarrow> Server \<Rightarrow> Server result" where
  "deliverMessage client pub subQoS s =
     (case heap s client of
        None \<Rightarrow> Panicked
      | Some c \<Rightarrow> Returned (fst (Write (Conn c) (deliverBuf pub subQoS) s)))"

text \<open>\<open>routeMessage\<close>: the inner loop over one client's subscriptions stops at the first
  filter that matches (\<open>break\<close>); the outer loop visits every client of the registry.\<close>

fun routeSubscriptions ::
  "nat \<Rightarrow> (string \<rightharpoonup> byte) \<Rightarrow> string list \<Rightarrow> PublishPacket
   \<Rightarrow> (nat \<times> PublishPacket \<times> byte) list" where
  "routeSubscriptions client subs [] pub = []"
| "routeSubscriptions client subs (subTopic # ks) pub =
     (case subs subTopic of
        None \<Rightarrow> routeSubscriptions client subs ks pub
      | Some subQoS \<Rightarrow>
          if topicMatch subTopic (PublishPacket.Topic pub) then [(client, pub, subQoS)]
          else routeSubscriptions client subs ks pub)"

fun routeClients ::
  "RangeOrder \<Rightarrow> Server \<Rightarrow> string list \<Rightarrow> PublishPacket
   \<Rightarrow> (nat \<times> PublishPacket \<times> byte) list" where
  "routeClients ord s [] pub = []"
| "routeClients ord s (k # ks) pub =
     (case clients s k of
        None \<Rightarrow> routeClients ord s ks pub
      | Some client \<Rightarrow>
          (case heap s client of
             None \<Rightarrow> routeClients ord s ks pub
           | Some c \<Rightarrow>
               routeSubscriptions client (Subscriptions c)
                 (rangeSubscriptions ord (Subscriptions c)) pub
               @ routeClients ord s ks pub))"

definition routeSpawns ::
  "RangeOrder \<Rightarrow> PublishPacket \<Rightarrow> Server \<Rightarrow> (nat \<times> PublishPacket \<times> byte) list" where
  "routeSpawns ord pub s = routeClients ord s (rangeClients ord (clients s)) pub"

definition routeMessage :: "RangeOrder \<Rightarrow> PublishPacket \<Rightarrow> Server \<Rightarrow> Server" where
  "routeMessage ord pub s = s\<lparr>pending := pending s @ routeSpawns ord pub s\<rparr>"

definition storeRetained :: "PublishPacket \<Rightarrow> Server \<Rightarrow> Server result" where
  "storeRetained publishPkt s =
     (if Retain publishPkt then
        (if length (Payload publishPkt) = 0 then
           Returned (s\<lparr>retainedMsgs :=
             map_option (\<lambda>m. m(PublishPacket.Topic publishPkt := None)) (retainedMsgs s)\<rparr>)
         else
           (case retainedMsgs s of
              None \<Rightarrow> Panicked
            | Some m \<Rightarrow>
                Returned (s\<lparr>retainedMsgs :=
                  Some (m(PublishPacket.Topic publishPkt \<mapsto> publishPkt))\<rparr>)))
      else Returned s)"

definition handlePublish ::
  "RangeOrder \<Rightarrow> nat \<Rightarrow> FixedHeader \<Rightarrow> byte list \<Rightarrow> Server \<Rightarrow> Server result" where
  "handlePublish ord client header data s =
     (case DecodePublishPacket data header of
        Inl e \<Rightarrow> Returned s
      | Inr publishPkt \<Rightarrow>
          (case heap s client of
             None \<Rightarrow> Panicked
           | Some c \<Rightarrow>
               (case storeRetained publishPkt s of
                  Panicked \<Rightarrow> Panicked
                | Returned s1 \<Rightarrow>
                    (let s2 = (if PublishPacket.QoS publishPkt = 1 then
                                 fst (Write (Conn c)
                                       (PubackPacket_Encode
                                          \<lparr>PubackPacket.PacketID =
                                             PublishPacket.PacketID publishPkt\<rparr>) s1)
                               else s1)
                     in Returned (routeMessage ord publishPkt s2)))))"

text \<open>\<open>handleSubscribe\<close>: the loop over the entries of the packet stores each filter with
  its QoS and sets \<open>returnCodes[i]\<close>; the loop over the retained messages starts one delivery
  for each retained topic that some entry matches, with the QoS of the first such entry.\<close>

definition subscribeStep ::
  "Subscription list \<Rightarrow> nat \<Rightarrow> (string \<rightharpoonup> byte) \<times> byte list
   \<Rightarrow> (string \<rightharpoonup> byte) \<times> byte list" where
  "subscribeStep topics = (\<lambda>i (subs, returnCodes).
     let sub = topics ! i
     in (subs(Subscription.Topic sub \<mapsto> Subscription.QoS sub),
         returnCodes[i := Subscription.QoS sub]))"

definition storeSubscriptions ::
  "Subscription list \<Rightarrow> (string \<rightharpoonup> byte) \<Rightarrow> (string \<rightharpoonup> byte) \<times> byte list" where
  "storeSubscriptions topics subs =
     fold (subscribeStep topics) [0..<length topics] (subs, replicate (length topics) 0)"

fun retainedFirst ::
  "nat \<Rightarrow> PublishPacket \<Rightarrow> string \<Rightarrow> Subscription list
   \<Rightarrow> (nat \<times> PublishPacket \<times> byte) list" where
  "retainedFirst client retainedMsg topic [] = []"
| "retainedFirst client retainedMsg topic (sub # subs) =
     (if topicMatch (Subscription.Topic sub) topic
      then [(client, retainedMsg, Subscription.QoS sub)]
      else retainedFirst client retainedMsg topic subs)"

fun retainedLoop ::
  "nat \<Rightarrow> (string \<rightharpoonup> PublishPacket) \<Rightarrow> string list \<Rightarrow> Subscription list
   \<Rightarrow> (nat \<times> PublishPacket \<times> byte) list" where
  "retainedLoop client m [] subs = []"
| "retainedLoop client m (topic # ks) subs =
     (case m topic of
        None \<Rightarrow> retainedLoop client m ks subs
      | Some retainedMsg \<Rightarrow>
          retainedFirst client retainedMsg topic subs @ retainedLoop client m ks subs)"

definition retainedSpawns ::
  "RangeOrder \<Rightarrow> nat \<Rightarrow> Subscription list \<Rightarrow> Server
   \<Rightarrow> (nat \<times> PublishPacket \<times> byte) list" where
  "retainedSpawns ord client subs s =
     (case retainedMsgs s of
        None \<Rightarrow> []
      | Some m \<Rightarrow> retainedLoop client m (rangeRetained ord m) subs)"

definition handleSubscribe ::
  "RangeOrder \<Rightarrow> nat \<Rightarrow> conn \<Rightarrow> byte list \<Rightarrow> Server \<Rightarrow> Server result" where
  "handleSubscribe ord client conn data s =
     (case DecodeSubscribePacket data (length data) of
        Inl e \<Rightarrow> Returned s
      | Inr subscribePkt \<Rightarrow>
          (case heap s client of
             None \<Rightarrow> Panicked
           | Some c \<Rightarrow>
               (let (subs, returnCodes) =
                      storeSubscriptions (SubscribePacket.Topics subscribePkt) (Subscriptions c);
                    s1 = s\<lparr>heap := (heap s)(client \<mapsto> c\<lparr>Subscriptions := subs\<rparr>)\<rparr>;
                    suback = \<lparr>SubackPacket.PacketID = SubscribePacket.PacketID subscribePkt,
                              ReturnCodes = returnCodes\<rparr>;
                    (s2, ok) = Write (Conn c) (SubackPacket_Encode suback) s1
                in if \<not> ok then Returned s2
                   else Returned (s2\<lparr>pending := pending s2 @
                          retainedSpawns ord client (SubscribePacket.Topics subscribePkt) s2\<rparr>))))"

definition handleUnsubscribe :: "nat \<Rightarrow> byte list \<Rightarrow> Server \<Rightarrow> Server result" where
  "handleUnsubscribe client data s =
     (case DecodeUnsubscribePacket data (length data) of
        Inl e \<Rightarrow> Returned s
      | Inr unsubscribePkt \<Rightarrow>
          (case heap s client of
             None \<Rightarrow> Panicked
           | Some c \<Rightarrow>
               (let subs = fold (\<lambda>topic m. m(topic := None))
                             (UnsubscribePacket.Topics unsubscribePkt) (Subscriptions c);
                    s1 = s\<lparr>heap := (heap s)(client \<mapsto> c\<lparr>Subscriptions := subs\<rparr>)\<rparr>;
                    unsuback = \<lparr>UnsubackPacket.PacketID =
                                  UnsubscribePacket.PacketID unsubscribePkt\<rparr>
                in Returned (fst (Write (Conn c) (UnsubackPacket_Encode unsuback) s1)))))"

definition handlePingreq :: "conn \<Rightarrow> Server \<Rightarrow> Server" where
  "handlePingreq conn s = fst (Write conn PingrespPacket_Encode s)"

text \<open>\<open>handleConnection\<close>: the read loop over the bytes that arrive on the connection, with
  the local variable \<open>client\<close> (\<open>None\<close> is the nil pointer before a CONNECT). The DISCONNECT
  case reads \<open>client.ID\<close> and so panics on nil. The deferred \<open>conn.Close()\<close> runs when the
  loop returns.\<close>

function handleConnectionLoop ::
  "RangeOrder \<Rightarrow> conn \<Rightarrow> byte list \<Rightarrow> nat option \<Rightarrow> Server \<Rightarrow> Server result" where
  "handleConnectionLoop ord conn reader client s =
     (case ReadFixedHeader reader of
        Inl e \<Rightarrow> Returned s
      | Inr (header, r1) \<Rightarrow>
          (case (if RemainingLen header > 0 then ReadFull r1 (RemainingLen header)
                 else Inr ([], r1)) of
             Inl e \<Rightarrow> Returned s
           | Inr (remainingData, r2) \<Rightarrow>
               if PacketType header = CONNECT then
                 (case handleConnect conn remainingData (RemainingLen header) s of
                    (s', None) \<Rightarrow> Returned s'
                  | (s', Some c) \<Rightarrow> handleConnectionLoop ord conn r2 (Some c) s')
               else if PacketType header = PUBLISH then
                 (case client of
                    None \<Rightarrow> Returned s
                  | Some c \<Rightarrow>
                      (case handlePublish ord c header remainingData s of
                         Panicked \<Rightarrow> Panicked
                       | Returned s' \<Rightarrow> handleConnectionLoop ord conn r2 client s'))
               else if PacketType header = SUBSCRIBE then
                 (case client of
                    None \<Rightarrow> Returned s
                  | Some c \<Rightarrow>
                      (case handleSubscribe ord c conn remainingData s of
                         Panicked \<Rightarrow> Panicked
                       | Returned s' \<Rightarrow> handleConnectionLoop ord conn r2 client s'))
               else if PacketType header = UNSUBSCRIBE then
                 (case client of
                    None \<Rightarrow> Returned s
                  | Some c \<Rightarrow>
                      (case handleUnsubscribe c remainingData s of
                         Panicked \<Rightarrow> Panicked
                       | Returned s' \<Rightarrow> handleConnectionLoop ord conn r2 client s'))
               else if PacketType header = PINGREQ then
                 handleConnectionLoop ord conn r2 client (handlePingreq conn s)
               else if PacketType header = DISCONNECT then
                 (case client of
                    None \<Rightarrow> Panicked
                  | Some c \<Rightarrow> (case heap s c of None \<Rightarrow> Panicked | Some cl \<Rightarrow> Returned s))
               else handleConnectionLoop ord conn r2 client s))"
  by pat_completeness auto

lemma ReadFull_length:
  "ReadFull r n = Inr (d, r') \<Longrightarrow> length r' = length r - n \<and> n \<le> length r"
  by (auto simp: ReadFull_def split: if_splits)

lemma readRemainingLen_length:
  "readRemainingLen r m v = Inr (x, r') \<Longrightarrow> length r' < length r"
proof (induction r arbitrary: m v)
  case Nil
  then show ?case by simp
next
  case (Cons b r)
  then show ?case by (fastforce simp: Let_def split: if_splits)
qed

lemma ReadFixedHeader_length:
  "ReadFixedHeader r = Inr (h, r') \<Longrightarrow> length r' < length r"
  by (auto simp: ReadFixedHeader_def bindE_def split: sum.splits prod.splits
           dest!: ReadFull_length readRemainingLen_length)

termination handleConnectionLoop
  apply (relation "measure (\<lambda>(ord, conn, reader, client, s). length reader)")
  apply (auto dest!: ReadFixedHeader_length ReadFull_length split: if_splits)
  done

declare handleConnectionLoop.simps [simp del]

definition handleConnection ::
  "RangeOrder \<Rightarrow> conn \<Rightarrow> byte list \<Rightarrow> Server \<Rightarrow> Server result" where
  "handleConnection ord conn input s =
     (case handleConnectionLoop ord conn input None s of
        Panicked \<Rightarrow> Panicked
      | Returned s' \<Rightarrow> Returned (Close conn s'))"

section \<open>Package config\<close>

text \<open>Go's \<open>int\<close> and \<open>time.Duration\<close> are integers; \<open>MaxQoS\<close> is a byte.\<close>

record ServerConfig =
  Host :: string
  Port :: int
  KeepAlive :: int
  WriteTimeout :: int
  ReadTimeout :: int
  CleanSessionDefault :: bool

record TLSConfig =
  Enabled :: bool
  CertFile :: string
  KeyFile :: string
  CAFile :: string

record AuthConfig =
  Enabled :: bool
  AllowAnonymous :: bool
  RequireClientCerts :: bool
  UsernamePasswordFile :: string

record StorageConfig =
  Backend :: string
  Path :: string
  RedisAddr :: string
  RedisPassword :: string
  RedisDB :: int

record LimitsConfig =
  MaxClients :: int
  MaxMessageSize :: int
  MaxInflightMessages :: int
  RetainedMessages :: bool

record QoSConfig =
  MaxQoS :: byte
  RetryInterval :: int
  MaxRetries :: int

record LoggingConfig =
  Level :: string
  Format :: string
  Output :: string

record MetricsConfig =
  Enabled :: bool
  Port :: int
  Path :: string

record Config =
  Server :: ServerConfig
  TLS :: TLSConfig
  Auth :: AuthConfig
  Storage :: StorageConfig
  Limits :: LimitsConfig
  QoS :: QoSConfig
  Logging :: LoggingConfig
  Metrics :: MetricsConfig

definition Second :: int where
  "Second = 1000000000"

definition setDefaults :: "Config \<Rightarrow> Config" where
  "setDefaults c =
     (let sv = Config.Server c;
          sv1 = (if Host sv = [] then sv\<lparr>Host := ''127.0.0.1''\<rparr> else sv);
          sv2 = (if ServerConfig.Port sv1 = 0 then sv1\<lparr>ServerConfig.Port := 1883\<rparr> else sv1);
          sv3 = (if ServerConfig.KeepAlive sv2 = 0
                 then sv2\<lparr>ServerConfig.KeepAlive := 60 * Second\<rparr> else sv2);
          sv4 = (if WriteTimeout sv3 = 0 then sv3\<lparr>WriteTimeout := 10 * Second\<rparr> else sv3);
          sv5 = (if ReadTimeout sv4 = 0 then sv4\<lparr>ReadTimeout := 30 * Second\<rparr> else sv4);
          st = Storage c;
          st1 = (if Backend st = [] then st\<lparr>Backend := ''bbolt''\<rparr> else st);
          st2 = (if StorageConfig.Path st1 = []
                 then st1\<lparr>StorageConfig.Path := ''./data/mqtt.db''\<rparr> else st1);
          li = Limits c;
          li1 = (if MaxClients li = 0 then li\<lparr>MaxClients := 1000\<rparr> else li);
          li2 = (if MaxMessageSize li1 = 0 then li1\<lparr>MaxMessageSize := 256 * 1024\<rparr> else li1);
          li3 = (if MaxInflightMessages li2 = 0
                 then li2\<lparr>MaxInflightMessages := 100\<rparr> else li2);
          q = Config.QoS c;
          q1 = (if MaxQoS q = 0 then q\<lparr>MaxQoS := 1\<rparr> else q);
          q2 = (if RetryInterval q1 = 0 then q1\<lparr>RetryInterval := 10 * Second\<rparr> else q1);
          q3 = (if MaxRetries q2 = 0 then q2\<lparr>MaxRetries := 3\<rparr> else q2);
          lo = Logging c;
          lo1 = (if Level lo = [] then lo\<lparr>Level := ''info''\<rparr> else lo);
          lo2 = (if Format lo1 = [] then lo1\<lparr>Format := ''text''\<rparr> else lo1);
          lo3 = (if Output lo2 = [] then lo2\<lparr>Output := ''stdout''\<rparr> else lo2);
          me = Metrics c;
          me1 = (if MetricsConfig.Port me = 0 then me\<lparr>MetricsConfig.Port := 9090\<rparr> else me);
          me2 = (if MetricsConfig.Path me1 = []
                 then me1\<lparr>MetricsConfig.Path := ''/metrics''\<rparr> else me1)
      in c\<lparr>Config.Server := sv5, Storage := st2, Limits := li3, Config.QoS := q3,
           Logging := lo3, Metrics := me2\<rparr>)"

text \<open>The two maps of \<open>Validate\<close>: a key that is absent reads as \<open>false\<close>. The
  error messages are written without the value that \<open>%d\<close> or \<open>%s\<close> formats into them.\<close>

definition validBackends :: "string \<Rightarrow> bool" where
  "validBackends b = (b = ''memory'' \<or> b = ''bbolt'' \<or> b = ''redis'')"

definition validLevels :: "string \<Rightarrow> bool" where
  "validLevels l = (l = ''debug'' \<or> l = ''info'' \<or> l = ''warn'' \<or> l = ''error'')"

definition Validate :: "Config \<Rightarrow> error option" where
  "Validate c =
     (if ServerConfig.Port (Config.Server c) < 1 \<or> ServerConfig.Port (Config.Server c) > 65535
      then Some (Errorf ''invalid port (must be 1-65535)'')
      else if TLSConfig.Enabled (TLS c) \<and> (CertFile (TLS c) = [] \<or> KeyFile (TLS c) = [])
      then Some (Errorf ''TLS enabled but cert_file or key_file not specified'')
      else if \<not> validBackends (Backend (Storage c))
      then Some (Errorf ''invalid storage backend (must be memory, bbolt, or redis)'')
      else if MaxQoS (Config.QoS c) > 2
      then Some (Errorf ''invalid max_qos (must be 0, 1, or 2)'')
      else if \<not> validLevels (Level (Logging c))
      then Some (Errorf ''invalid log level (must be debug, info, warn, or error)'')
      else if MetricsConfig.Enabled (Metrics c)
              \<and> (MetricsConfig.Port (Metrics c) < 1 \<or> MetricsConfig.Port (Metrics c) > 65535)
      then Some (Errorf ''invalid metrics port (must be 1-65535)'')
      else if MetricsConfig.Enabled (Metrics c)
              \<and> MetricsConfig.Port (Metrics c) = ServerConfig.Port (Config.Server c)
      then Some (Errorf ''metrics port cannot be the same as server port'')
      else None)"

text \<open>\<open>Load\<close>: the result of \<open>os.ReadFile\<close> and the YAML parser \<open>yaml.Unmarshal\<close> are
  parameters; the defaults are set before the configuration is validated.\<close>

definition Load :: "error + byte list \<Rightarrow> (byte list \<Rightarrow> error + Config) \<Rightarrow> error + Config" where
  "Load readFile unmarshal =
     (case readFile of
        Inl e \<Rightarrow> Inl (Wrap ''failed to read config file'' e)
      | Inr data \<Rightarrow>
          (case unmarshal data of
             Inl e \<Rightarrow> Inl (Wrap ''failed to parse config file'' e)
           | Inr cfg \<Rightarrow>
               (let cfg' = setDefaults cfg in
                case Validate cfg' of
                  Some e \<Rightarrow> Inl (Wrap ''invalid configuration'' e)
                | None \<Rightarrow> Inr cfg')))"

section \<open>The registry invariant\<close>

text \<open>Every slot of the registry holds the address of a client whose \<open>ID\<close> is the key of
  the slot, and every client lives at an address below \<open>nextClient\<close>.\<close>

definition registry_ok :: "Server \<Rightarrow> bool" where
  "registry_ok s =
     ((\<forall>k a. clients s k = Some a \<longrightarrow> (\<exists>c. heap s a = Some c \<and> ID c = k))
      \<and> (\<forall>a c. heap s a = Some c \<longrightarrow> a < nextClient s))"


section \<open>Example values\<close>

text \<open>A configuration that breaks none of the rules the specification lists, with the
  metrics endpoint enabled on port 70000.\<close>

definition exampleConfig :: Config where
  "exampleConfig =
     \<lparr>Config.Server = \<lparr>Host = ''127.0.0.1'', ServerConfig.Port = 1883, ServerConfig.KeepAlive = 60 * Second,
                        WriteTimeout = 10 * Second, ReadTimeout = 30 * Second,
                        CleanSessionDefault = True\<rparr>,
      TLS = \<lparr>TLSConfig.Enabled = False, CertFile = [], KeyFile = [], CAFile = []\<rparr>,
      Auth = \<lparr>AuthConfig.Enabled = False, AllowAnonymous = True, RequireClientCerts = False,
               UsernamePasswordFile = []\<rparr>,
      Storage = \<lparr>Backend = ''memory'', StorageConfig.Path = ''./data/mqtt.db'', RedisAddr = [],
                  RedisPassword = [], RedisDB = 0\<rparr>,
      Limits = \<lparr>MaxClients = 1000, MaxMessageSize = 262144, MaxInflightMessages = 100,
                 RetainedMessages = True\<rparr>,
      Config.QoS = \<lparr>MaxQoS = 1, RetryInterval = 10 * Second, MaxRetries = 3\<rparr>,
      Logging = \<lparr>Level = ''info'', Format = ''text'', Output = ''stdout''\<rparr>,
      Metrics = \<lparr>MetricsConfig.Enabled = True, MetricsConfig.Port = 70000,
                  MetricsConfig.Path = ''/metrics''\<rparr>\<rparr>"

text \<open>The body of a CONNECT packet (protocol MQTT, version 4, clean session, keep-alive 60,
  client id \<open>x\<close>), the broker after that CONNECT on connection 1, and after the same
  CONNECT on connection 2.\<close>

definition connectX :: "byte list" where
  "connectX = [0, 4, 77, 81, 84, 84, 4, 2, 0, 60, 0, 1, 120]"

definition afterFirstConnect :: Server where
  "afterFirstConnect = fst (handleConnect 1 connectX 13 NewWithConfig)"

definition afterSecondConnect :: Server where
  "afterSecondConnect = fst (handleConnect 2 connectX 13 afterFirstConnect)"

text \<open>An order of visit for the maps of the examples.\<close>

definition exampleOrder :: RangeOrder where
  "exampleOrder =
     \<lparr>rangeClients = (\<lambda>m. filter (\<lambda>k. m k \<noteq> None) [''x'']),
      rangeSubscriptions = (\<lambda>m. filter (\<lambda>k. m k \<noteq> None) [''a/+'', ''a/b'', ''a'']),
      rangeRetained = (\<lambda>m. filter (\<lambda>k. m k \<noteq> None) [''a/b''])\<rparr>"

text \<open>The body of a SUBSCRIBE packet: packet id 1, the filter \<open>a\<close> with requested QoS 2.\<close>

definition subscribeA2 :: "byte list" where
  "subscribeA2 = [0, 1, 0, 1, 97, 2]"

text \<open>A retained message on the topic \<open>a/b\<close>, the broker that holds it, the PUBLISH
  (retain set, QoS 0, empty payload) that clears it, and a SUBSCRIBE to \<open>a/b\<close> with
  QoS 0.\<close>

definition retainedAB :: PublishPacket where
  "retainedAB = \<lparr>Dup = False, PublishPacket.QoS = 0, Retain = True,
                  PublishPacket.Topic = ''a/b'', PublishPacket.PacketID = 0, Payload = [1]\<rparr>"

definition withRetained :: Server where
  "withRetained = afterFirstConnect\<lparr>retainedMsgs := Some [''a/b'' \<mapsto> retainedAB]\<rparr>"



definition subscribeAB :: "byte list" where
  "subscribeAB = [0, 2, 0, 3, 97, 47, 98, 0]"

text \<open>The broker in which client \<open>x\<close> holds the filters \<open>a/+\<close> with QoS 0 and
  \<open>a/b\<close> with QoS 1, and a PUBLISH on \<open>a/b\<close> with QoS 1.\<close>

definition twoFilters :: Server where
  "twoFilters =
     afterFirstConnect\<lparr>heap :=
       [0 \<mapsto> \<lparr>ID = ''x'', Conn = 1, CleanSession = True,
              Subscriptions = [''a/+'' \<mapsto> 0, ''a/b'' \<mapsto> 1]\<rparr>]\<rparr>"

definition publishAB1 :: PublishPacket where
  "publishAB1 = \<lparr>Dup = False, PublishPacket.QoS = 1, Retain = False,
                  PublishPacket.Topic = ''a/b'', PublishPacket.PacketID = 7, Payload = [1]\<rparr>"

section \<open>Properties of the topic matcher\<close>

lemma split_loop_segments:
  "start \<le> length pre \<Longrightarrow>
   splitFinish (pre @ rest)
     (fold (splitStep (pre @ rest)) [length pre..<length (pre @ rest)] (levels, start))
   = levels @ segments (drop start pre) rest"
proof (induction rest arbitrary: pre levels start)
  case Nil
  then show ?case by (auto simp: splitFinish_def)
next
  case (Cons c cs)
  have upt: "[length pre..<length (pre @ c # cs)]
             = length pre # [length (pre @ [c])..<length ((pre @ [c]) @ cs)]"
    using upt_conv_Cons [of "length pre" "length (pre @ c # cs)"] by simp
  show ?case
  proof (cases "c = CHR ''/''")
    case True
    have "splitStep (pre @ c # cs) (length pre) (levels, start)
          = (levels @ [drop start pre], length (pre @ [c]))"
      using Cons.prems True by (simp add: splitStep_def)
    moreover have "splitFinish ((pre @ [c]) @ cs)
        (fold (splitStep ((pre @ [c]) @ cs)) [length (pre @ [c])..<length ((pre @ [c]) @ cs)]
           (levels @ [drop start pre], length (pre @ [c])))
        = (levels @ [drop start pre]) @ segments (drop (length (pre @ [c])) (pre @ [c])) cs"
      by (rule Cons.IH) simp
    ultimately show ?thesis using True upt by simp
  next
    case False
    have "splitStep (pre @ c # cs) (length pre) (levels, start) = (levels, start)"
      using False by (simp add: splitStep_def)
    moreover have "splitFinish ((pre @ [c]) @ cs)
        (fold (splitStep ((pre @ [c]) @ cs)) [length (pre @ [c])..<length ((pre @ [c]) @ cs)]
           (levels, start))
        = levels @ segments (drop start (pre @ [c])) cs"
      by (rule Cons.IH) (use Cons.prems in simp)
    ultimately show ?thesis using False upt Cons.prems by simp
  qed
qed

lemma splitTopic_segments: "splitTopic topic = segments [] topic"
proof (cases "topic = []")
  case True
  then show ?thesis by (simp add: splitTopic_def)
next
  case False
  have "splitFinish ([] @ topic)
          (fold (splitStep ([] @ topic)) [length ([]::string)..<length ([] @ topic)] ([], 0))
        = [] @ segments (drop 0 []) topic"
    by (rule split_loop_segments) simp
  then show ?thesis using False by (simp add: splitTopic_def)
qed

lemma topicMatchLoop_levels:
  "si \<le> length subLevels \<Longrightarrow> pi \<le> length pubLevels \<Longrightarrow>
   (case topicMatchLoop subLevels pubLevels si pi of
      Inl b \<Rightarrow> b
    | Inr (si', pi') \<Rightarrow>
        if si' < length subLevels \<and> subLevels ! si' = ''#'' then True
        else si' = length subLevels \<and> pi' = length pubLevels)
   = levelsMatch (drop si subLevels) (drop pi pubLevels)"
proof (induction subLevels pubLevels si pi rule: topicMatchLoop.induct)
  case (1 subLevels pubLevels si pi)
  show ?case
  proof (cases "si < length subLevels \<and> pi < length pubLevels")
    case True
    then have ds: "drop si subLevels = subLevels ! si # drop (si + 1) subLevels"
      and dp: "drop pi pubLevels = pubLevels ! pi # drop (pi + 1) pubLevels"
      by (simp_all add: Cons_nth_drop_Suc)
    show ?thesis
      using True 1 by (subst topicMatchLoop.simps) (simp add: ds dp Let_def)
  next
    case False
    show ?thesis
    proof (cases "si < length subLevels")
      case True
      with False have "length pubLevels \<le> pi" by simp
      moreover from True have "drop si subLevels = subLevels ! si # drop (si + 1) subLevels"
        by (simp add: Cons_nth_drop_Suc)
      ultimately show ?thesis using True False
        by (subst topicMatchLoop.simps) simp
    next
      case F2: False
      then have e: "drop si subLevels = []" and e': "si = length subLevels"
        using 1 by simp_all
      show ?thesis
      proof (cases "pi < length pubLevels")
        case True
        then have "drop pi pubLevels = pubLevels ! pi # drop (pi + 1) pubLevels"
          by (simp add: Cons_nth_drop_Suc)
        then show ?thesis using F2 True e by (subst topicMatchLoop.simps) simp
      next
        case False
        then show ?thesis using F2 e e' 1(4) by (subst topicMatchLoop.simps) auto
      qed
    qed
  qed
qed

lemma levelsMatch_refl: "levelsMatch xs xs"
  by (induction xs) auto

lemma topicMatch_levels: "topicMatch F T = levelsMatch (segments [] F) (segments [] T)"
proof (cases "F = T")
  case True
  then show ?thesis by (simp add: topicMatch_def levelsMatch_refl)
next
  case False
  then have "topicMatch F T =
      (case topicMatchLoop (splitTopic F) (splitTopic T) 0 0 of
         Inl b \<Rightarrow> b
       | Inr (si', pi') \<Rightarrow>
           if si' < length (splitTopic F) \<and> splitTopic F ! si' = ''#'' then True
           else si' = length (splitTopic F) \<and> pi' = length (splitTopic T))"
    by (simp add: topicMatch_def Let_def)
  also have "\<dots> = levelsMatch (drop 0 (splitTopic F)) (drop 0 (splitTopic T))"
    by (rule topicMatchLoop_levels) simp_all
  finally show ?thesis by (simp add: splitTopic_segments)
qed

lemma segments_level:
  "CHR ''/'' \<notin> set s \<Longrightarrow> segments cur (s @ CHR ''/'' # r) = (cur @ s) # segments [] r"
  by (induction s arbitrary: cur) auto

lemma segments_last:
  "CHR ''/'' \<notin> set s \<Longrightarrow> segments cur s = (if cur @ s = [] then [] else [cur @ s])"
  by (induction s arbitrary: cur) auto

lemma levelsMatch_hash: "levelsMatch (''#'' # fs) ts"
  by (cases ts) auto

text \<open>
  Claim C3, as the code has it: \<open>topicMatch\<close> gives \<open>$\<close> no special treatment. The filter
  \<open>#\<close> matches every topic, whether it begins with \<open>$\<close> or not; so does every filter whose
  first level is \<open>#\<close>; and the filter \<open>+\<close> matches every one-level topic that begins with
  \<open>$\<close>.
\<close>

theorem topicMatch_dollar_not_special:
  "topicMatch ''#'' T
   \<and> (splitTopic F = ''#'' # fs \<longrightarrow> topicMatch F T)
   \<and> (CHR ''/'' \<notin> set s \<longrightarrow> topicMatch ''+'' (CHR ''$'' # s))"
proof (intro conjI impI)
  have "segments [] ''#'' = [''#'']" by simp
  then show "topicMatch ''#'' T" by (simp add: topicMatch_levels levelsMatch_hash)
next
  assume "splitTopic F = ''#'' # fs"
  then show "topicMatch F T"
    by (simp add: topicMatch_levels splitTopic_segments levelsMatch_hash)
next
  assume "CHR ''/'' \<notin> set s"
  then have "segments [] (CHR ''$'' # s) = [CHR ''$'' # s]"
    using segments_last [of "CHR ''$'' # s" "[]"] by simp
  then show "topicMatch ''+'' (CHR ''$'' # s)"
    by (simp add: topicMatch_levels)
qed

text \<open>The theorem of C3 at the topics \<open>$SYS/broker\<close> and \<open>$SYS\<close>.\<close>

theorem topicMatch_dollar_not_special_witness:
  "topicMatch ''#'' ''$SYS/broker'' \<and> splitTopic ''#/x'' = [''#'', ''x'']
   \<and> topicMatch ''#/x'' ''$SYS/broker'' \<and> topicMatch ''+'' ''$SYS''"
proof -
  have a: "splitTopic ''#/x'' = ''#'' # [''x'']" by (simp add: splitTopic_segments)
  have b: "CHR ''/'' \<notin> set ''SYS''" by simp
  from topicMatch_dollar_not_special [of "''$SYS/broker''" "''#/x''" "[''x'']" "''SYS''"] a b
  show ?thesis by simp
qed

text \<open>Claim C3 as stated fails: the topic \<open>$SYS/broker\<close> begins with \<open>$\<close>, the first level
  of the filter \<open>#\<close> is \<open>#\<close>, and the filter matches the topic.\<close>

theorem hash_matches_SYS_counterexample:
  "hd ''$SYS/broker'' = CHR ''$'' \<and> hd (splitTopic ''#'') = ''#''
   \<and> topicMatch ''#'' ''$SYS/broker''"
  by (simp add: topicMatch_levels splitTopic_segments)

text \<open>
  Claim C7, as the code has it: a level \<open>+\<close> of the filter takes exactly one level of the
  topic as \<open>splitTopic\<close> produces the levels. A level that a \<open>/\<close> ends is taken whatever it
  is, the empty level included; a filter that is \<open>+\<close> alone matches a topic of one level
  only when that level is not empty, since \<open>splitTopic\<close> drops an empty last level; and an
  equal first level other than \<open>#\<close> leaves the match to the rest of filter and topic.
\<close>

theorem plus_matches_one_level:
  "CHR ''/'' \<notin> set s \<Longrightarrow>
   topicMatch (''+/'' @ F) (s @ ''/'' @ T) = topicMatch F T
   \<and> topicMatch ''+'' s = (s \<noteq> [])
   \<and> (s \<noteq> ''#'' \<longrightarrow> topicMatch (s @ ''/'' @ F) (s @ ''/'' @ T) = topicMatch F T)"
proof (intro conjI impI)
  assume s: "CHR ''/'' \<notin> set s"
  have f: "segments [] (''+/'' @ F) = ''+'' # segments [] F" by simp
  have t: "segments [] (s @ ''/'' @ T) = s # segments [] T"
    using segments_level [OF s, of "[]" T] by simp
  show "topicMatch (''+/'' @ F) (s @ ''/'' @ T) = topicMatch F T"
    by (simp only: topicMatch_levels f t) simp
  show "topicMatch ''+'' s = (s \<noteq> [])"
    using segments_last [OF s, of "[]"] by (simp add: topicMatch_levels)
  assume "s \<noteq> ''#''"
  moreover have "segments [] (s @ ''/'' @ F) = s # segments [] F"
    using segments_level [OF s, of "[]" F] by simp
  ultimately show "topicMatch (s @ ''/'' @ F) (s @ ''/'' @ T) = topicMatch F T"
    by (simp only: topicMatch_levels t) simp
qed

text \<open>The theorem of C7 at the empty level: \<open>+/b\<close> matches \<open>/b\<close>, \<open>a/+/b\<close> matches \<open>a//b\<close>,
  and \<open>+\<close> does not match the empty topic.\<close>

theorem plus_matches_one_level_witness:
  "CHR ''/'' \<notin> set '''' \<and> topicMatch ''+/b'' ''/b'' \<and> \<not> topicMatch ''+'' ''''
   \<and> topicMatch ''a/+/b'' ''a//b''"
proof -
  have e: "CHR ''/'' \<notin> set ''''" by simp
  have a: "CHR ''/'' \<notin> set ''a''" by simp
  have b: "topicMatch ''b'' ''b''" by (simp add: topicMatch_def)
  from plus_matches_one_level [OF e, of "''b''" "''b''"] b
  have 1: "topicMatch ''+/b'' ''/b''" and 2: "\<not> topicMatch ''+'' ''''" by simp_all
  from plus_matches_one_level [OF a, of "''+/b''" "''/b''"] 1
  have "topicMatch ''a/+/b'' ''a//b''" by simp
  with e 1 2 show ?thesis by simp
qed

text \<open>Claim C7 as stated fails at its own example: \<open>splitTopic\<close> gives the topic \<open>a/\<close> the
  single level \<open>a\<close>, so the filter \<open>a/+\<close> does not match it.\<close>

theorem plus_trailing_empty_counterexample:
  "splitTopic ''a/+'' = [''a'', ''+''] \<and> splitTopic ''a/'' = [''a'']
   \<and> \<not> topicMatch ''a/+'' ''a/''"
  by (simp add: topicMatch_levels splitTopic_segments)

section \<open>Properties of the configuration\<close>

text \<open>
  Claim C9, as the code has it: \<open>Validate\<close> accepts a configuration exactly when the
  server port is in 1..65535, TLS is disabled or has both cert_file and key_file, the
  storage backend is memory, bbolt or redis, max_qos is at most 2, the log level is debug,
  info, warn or error, and, when metrics are enabled, the metrics port is in 1..65535 and
  differs from the server port. \<open>Load\<close> of a file that is read and parsed validates the
  configuration after \<open>setDefaults\<close> has filled in the defaults, and returns that
  configuration or the error of \<open>Validate\<close>.
\<close>

theorem Validate_rules:
  "(Validate c = None) =
     (1 \<le> ServerConfig.Port (Config.Server c) \<and> ServerConfig.Port (Config.Server c) \<le> 65535
      \<and> (TLSConfig.Enabled (TLS c) \<longrightarrow> CertFile (TLS c) \<noteq> [] \<and> KeyFile (TLS c) \<noteq> [])
      \<and> Backend (Storage c) \<in> {''memory'', ''bbolt'', ''redis''}
      \<and> MaxQoS (Config.QoS c) \<le> 2
      \<and> Level (Logging c) \<in> {''debug'', ''info'', ''warn'', ''error''}
      \<and> (MetricsConfig.Enabled (Metrics c) \<longrightarrow>
            1 \<le> MetricsConfig.Port (Metrics c) \<and> MetricsConfig.Port (Metrics c) \<le> 65535
            \<and> MetricsConfig.Port (Metrics c) \<noteq> ServerConfig.Port (Config.Server c)))
   \<and> Load (Inr data) (\<lambda>d. Inr c) =
       (case Validate (setDefaults c) of
          None \<Rightarrow> Inr (setDefaults c)
        | Some e \<Rightarrow> Inl (Wrap ''invalid configuration'' e))"
proof
  show "(Validate c = None) =
     (1 \<le> ServerConfig.Port (Config.Server c) \<and> ServerConfig.Port (Config.Server c) \<le> 65535
      \<and> (TLSConfig.Enabled (TLS c) \<longrightarrow> CertFile (TLS c) \<noteq> [] \<and> KeyFile (TLS c) \<noteq> [])
      \<and> Backend (Storage c) \<in> {''memory'', ''bbolt'', ''redis''}
      \<and> MaxQoS (Config.QoS c) \<le> 2
      \<and> Level (Logging c) \<in> {''debug'', ''info'', ''warn'', ''error''}
      \<and> (MetricsConfig.Enabled (Metrics c) \<longrightarrow>
            1 \<le> MetricsConfig.Port (Metrics c) \<and> MetricsConfig.Port (Metrics c) \<le> 65535
            \<and> MetricsConfig.Port (Metrics c) \<noteq> ServerConfig.Port (Config.Server c)))"
    unfolding Validate_def validBackends_def validLevels_def
    by (auto simp: not_less)
  show "Load (Inr data) (\<lambda>d. Inr c) =
       (case Validate (setDefaults c) of
          None \<Rightarrow> Inr (setDefaults c)
        | Some e \<Rightarrow> Inl (Wrap ''invalid configuration'' e))"
    by (simp add: Load_def Let_def split: option.splits)
qed

text \<open>The example configuration has every default set already.\<close>

lemma ex_defaults: "setDefaults exampleConfig = exampleConfig"
  by (simp add: setDefaults_def exampleConfig_def Second_def Let_def)

text \<open>The theorem of C9 at the example configuration, with the metrics port 9090 (accepted)
  and 70000 (refused by \<open>Load\<close>).\<close>

theorem Validate_rules_witness:
  "Validate (exampleConfig\<lparr>Metrics := (Metrics exampleConfig)\<lparr>MetricsConfig.Port := 9090\<rparr>\<rparr>) = None
   \<and> (\<exists>e. Load (Inr []) (\<lambda>d. Inr exampleConfig) = Inl (Wrap ''invalid configuration'' e))"
proof -
  let ?c = "exampleConfig\<lparr>Metrics := (Metrics exampleConfig)\<lparr>MetricsConfig.Port := 9090\<rparr>\<rparr>"
  have 1: "Validate ?c = None"
    using Validate_rules [of ?c "[]"] by (simp add: exampleConfig_def)
  have "Validate exampleConfig \<noteq> None"
    using Validate_rules [of exampleConfig "[]"] by (simp add: exampleConfig_def)
  then have 2: "\<exists>e. Load (Inr []) (\<lambda>d. Inr exampleConfig) = Inl (Wrap ''invalid configuration'' e)"
    using Validate_rules [of exampleConfig "[]"] by (auto simp: ex_defaults)
  from 1 2 show ?thesis by simp
qed

text \<open>Claim C9 as stated fails: the example configuration breaks none of the rules the claim
  lists (its metrics port 70000 differs from the server port 1883), and \<open>Validate\<close> and
  \<open>Load\<close> return an error.\<close>

theorem metrics_port_range_counterexample:
  "1 \<le> ServerConfig.Port (Config.Server exampleConfig)
   \<and> ServerConfig.Port (Config.Server exampleConfig) \<le> 65535
   \<and> \<not> TLSConfig.Enabled (TLS exampleConfig)
   \<and> Backend (Storage exampleConfig) = ''memory''
   \<and> MaxQoS (Config.QoS exampleConfig) \<le> 2
   \<and> Level (Logging exampleConfig) = ''info''
   \<and> MetricsConfig.Enabled (Metrics exampleConfig)
   \<and> MetricsConfig.Port (Metrics exampleConfig) \<noteq> ServerConfig.Port (Config.Server exampleConfig)
   \<and> Validate exampleConfig = Some (Errorf ''invalid metrics port (must be 1-65535)'')
   \<and> Load (Inr []) (\<lambda>d. Inr exampleConfig)
       = Inl (Wrap ''invalid configuration'' (Errorf ''invalid metrics port (must be 1-65535)''))"
  by (simp add: Load_def ex_defaults)
     (simp add: exampleConfig_def Validate_def validBackends_def validLevels_def)

section \<open>Properties of the codec\<close>

text \<open>Claim C2 at a PUBLISH packet: \<open>PublishPacket.Encode\<close> returns its error and no bytes, so
  there is nothing to decode.\<close>

theorem PublishPacket_Encode_fails:
  "PublishPacket_Encode \<lparr>Dup = False, PublishPacket.QoS = 0, Retain = False,
      PublishPacket.Topic = ''test/topic'', PublishPacket.PacketID = 0, Payload = [72, 105]\<rparr>
   = Inl (Errorf ''PUBLISH encoding not yet implemented'')"
  by (simp add: PublishPacket_Encode_def)

section \<open>Properties of the connection handler\<close>

lemma ReadFixedHeader_empty_body:
  "b AND 0x80 = 0 \<Longrightarrow> unat (b AND 0x7F) = 0 \<Longrightarrow>
   ReadFixedHeader (a # b # rest)
   = Inr (\<lparr>PacketType = drop_bit 4 a AND 0x0F, Flags = a AND 0x0F, RemainingLen = 0\<rparr>, rest)"
  by (simp add: ReadFixedHeader_def ReadFull_def bindE_def Let_def)

text \<open>The guarded cases: a PUBLISH, SUBSCRIBE or UNSUBSCRIBE that arrives before any CONNECT
  ends the handler with nothing written; the connection is closed on return.\<close>

lemma guarded_before_connect_closes:
  assumes "ReadFixedHeader reader = Inr (header, r1)"
    and "(if RemainingLen header > 0 then ReadFull r1 (RemainingLen header) else Inr ([], r1))
         = Inr (remainingData, r2)"
    and "PacketType header = PUBLISH \<or> PacketType header = SUBSCRIBE
         \<or> PacketType header = UNSUBSCRIBE"
  shows "handleConnection ord conn reader s = Returned (Close conn s)"
proof -
  have "handleConnectionLoop ord conn reader None s = Returned s"
    using assms
    by (subst handleConnectionLoop.simps)
       (auto simp: CONNECT_def PUBLISH_def SUBSCRIBE_def UNSUBSCRIBE_def)
  then show ?thesis by (simp add: handleConnection_def)
qed

lemma publish_before_connect_example:
  "handleConnection ord conn [0x30, 0x00] s = Returned (Close conn s)"
proof -
  have h: "ReadFixedHeader [0x30, 0x00]
           = Inr (\<lparr>PacketType = 3, Flags = 0, RemainingLen = 0\<rparr>, [])"
    using ReadFixedHeader_empty_body [of 0 "0x30" "[]"] by simp
  show ?thesis
    by (rule guarded_before_connect_closes [OF h]) (simp_all add: PUBLISH_def)
qed

text \<open>Claim C6 at a PINGREQ that arrives before any CONNECT: the handler writes a PINGRESP
  and goes on reading from the connection, which stays open.\<close>

theorem pingreq_before_connect_answered:
  "handleConnectionLoop ord conn (0xC0 # 0x00 # rest) None s
     = handleConnectionLoop ord conn rest None (handlePingreq conn s)
   \<and> written (conns (handlePingreq conn NewWithConfig) conn) = [0xD0, 0x00]
   \<and> \<not> closed (conns (handlePingreq conn NewWithConfig) conn)"
proof -
  have h: "ReadFixedHeader (0xC0 # 0x00 # rest)
           = Inr (\<lparr>PacketType = 12, Flags = 0, RemainingLen = 0\<rparr>, rest)"
    using ReadFixedHeader_empty_body [of 0 "0xC0" rest] by simp
  have "handleConnectionLoop ord conn (0xC0 # 0x00 # rest) None s
        = handleConnectionLoop ord conn rest None (handlePingreq conn s)"
    by (subst handleConnectionLoop.simps)
       (simp add: h CONNECT_def PUBLISH_def SUBSCRIBE_def UNSUBSCRIBE_def PINGREQ_def)
  then show ?thesis
    by (simp add: handlePingreq_def Write_def NewWithConfig_def PingrespPacket_Encode_def
          PINGRESP_def)
qed

text \<open>Claim C10 at a DISCONNECT that arrives before any CONNECT: the handler reads
  \<open>client.ID\<close> of the nil client and panics, whatever the state of the broker.\<close>

theorem disconnect_before_connect_panics:
  "handleConnection ord conn [0xE0, 0x00] s = Panicked"
proof -
  have h: "ReadFixedHeader [0xE0, 0x00]
           = Inr (\<lparr>PacketType = 14, Flags = 0, RemainingLen = 0\<rparr>, [])"
    using ReadFixedHeader_empty_body [of 0 "0xE0" "[]"] by simp
  have "handleConnectionLoop ord conn [0xE0, 0x00] None s = Panicked"
    by (subst handleConnectionLoop.simps)
       (simp add: h CONNECT_def PUBLISH_def SUBSCRIBE_def UNSUBSCRIBE_def PINGREQ_def
          DISCONNECT_def)
  then show ?thesis by (simp add: handleConnection_def)
qed

section \<open>Properties of CONNECT\<close>

lemma string_of_bytes_x: "string_of_bytes [120] = ''x''"
  by code_simp

lemma string_of_bytes_MQTT: "string_of_bytes [77, 81, 84, 84] = ''MQTT''"
  by code_simp

lemma Decode_connectX:
  "DecodeConnectPacket connectX 13 =
     Inr \<lparr>ProtocolName = ''MQTT'', ProtocolVersion = 4, CleanSession = True, WillFlag = False,
          WillQoS = 0, WillRetain = False, PasswordFlag = False, UsernameFlag = False,
          KeepAlive = 60, ClientID = ''x'', WillTopic = [], WillMessage = [], Username = [],
          Password = []\<rparr>"
  by (simp add: DecodeConnectPacket_def connectX_def ReadString_def ReadFull_def bindE_def
        wrapE_def Uint16_def Let_def string_of_bytes_x string_of_bytes_MQTT)


lemma registry_ok_NewWithConfig: "registry_ok NewWithConfig"
  by (simp add: registry_ok_def NewWithConfig_def)

lemma Write_conns:
  "conns (fst (Write c d s)) c' =
     (if c' = c \<and> \<not> closed (conns s c)
      then (conns s c)\<lparr>written := written (conns s c) @ d\<rparr> else conns s c')"
  by (simp add: Write_def)

lemma Write_other [simp]:
  "clients (fst (Write c d s)) = clients s"
  "heap (fst (Write c d s)) = heap s"
  "nextClient (fst (Write c d s)) = nextClient s"
  "retainedMsgs (fst (Write c d s)) = retainedMsgs s"
  "pending (fst (Write c d s)) = pending s"
  by (simp_all add: Write_def)

text \<open>
  Claim C5, as the code has it: the registry is a map from client id to one session. An
  accepted CONNECT puts the new session into the slot of its client id, and into no other
  slot; the other slots are as before. A session that held the slot before is replaced in
  the registry but not evicted: no connection is closed (so the prior session's socket stays
  open), the prior client object is unchanged, and the only bytes written are the CONNACK
  on the connection of the CONNECT.
\<close>

theorem handleConnect_replaces_slot:
  assumes dec: "DecodeConnectPacket reader n = Inr pkt" and ok: "registry_ok s"
  shows "\<exists>s'. handleConnect conn reader n s = (s', Some (nextClient s))
     \<and> registry_ok s'
     \<and> (\<forall>k. (clients s' k = Some (nextClient s)) = (k = ClientID pkt))
     \<and> (\<forall>k. k \<noteq> ClientID pkt \<longrightarrow> clients s' k = clients s k)
     \<and> heap s' (nextClient s)
         = Some \<lparr>ID = ClientID pkt, Conn = conn,
                 CleanSession = ConnectPacket.CleanSession pkt, Subscriptions = Map.empty\<rparr>
     \<and> (\<forall>a. a \<noteq> nextClient s \<longrightarrow> heap s' a = heap s a)
     \<and> (\<forall>c. closed (conns s' c) = closed (conns s c))
     \<and> (\<forall>c. written (conns s' c)
              = (if c = conn \<and> \<not> closed (conns s conn)
                 then written (conns s c) @ [0x20, 2, 0, 0] else written (conns s c)))"
proof -
  let ?a = "nextClient s"
  let ?cl = "\<lparr>ID = ClientID pkt, Conn = conn,
              CleanSession = ConnectPacket.CleanSession pkt, Subscriptions = Map.empty\<rparr>"
  let ?s2 = "s\<lparr>heap := (heap s)(?a \<mapsto> ?cl), nextClient := ?a + 1,
               clients := (clients s)(ClientID pkt \<mapsto> ?a)\<rparr>"
  let ?s' = "fst (Write conn [0x20, 2, 0, 0] ?s2)"
  have fresh: "clients s k \<noteq> Some ?a" for k
    using ok unfolding registry_ok_def by (metis less_irrefl)
  have hc: "handleConnect conn reader n s = (?s', Some ?a)"
    by (simp add: handleConnect_def dec Let_def ConnackPacket_Encode_def CONNACK_def)
  have r: "registry_ok ?s'"
    using ok fresh unfolding registry_ok_def
    by (auto simp: less_Suc_eq)
  have c1: "\<forall>k. (clients ?s' k = Some ?a) = (k = ClientID pkt)"
    using fresh by simp
  have c4: "\<forall>c. closed (conns ?s' c) = closed (conns s c)"
    by (simp add: Write_conns)
  have c5: "\<forall>c. written (conns ?s' c)
              = (if c = conn \<and> \<not> closed (conns s conn)
                 then written (conns s c) @ [0x20, 2, 0, 0] else written (conns s c))"
    by (simp add: Write_conns)
  show ?thesis
    apply (rule exI [of _ ?s'])
    using hc r c1 c4 c5 by simp
qed

lemma NewWithConfig_fields [simp]:
  "clients NewWithConfig = Map.empty"
  "retainedMsgs NewWithConfig = Some Map.empty"
  "heap NewWithConfig = Map.empty"
  "nextClient NewWithConfig = 0"
  "conns NewWithConfig c = \<lparr>closed = False, written = []\<rparr>"
  "pending NewWithConfig = []"
  by (simp_all add: NewWithConfig_def)

text \<open>The theorem of C5 at the first CONNECT of client \<open>x\<close> on connection 1.\<close>

theorem handleConnect_replaces_slot_witness:
  "DecodeConnectPacket connectX 13 \<noteq> Inl EOF \<and> registry_ok NewWithConfig
   \<and> registry_ok afterFirstConnect
   \<and> clients afterFirstConnect ''x'' = Some 0
   \<and> \<not> closed (conns afterFirstConnect 1)
   \<and> written (conns afterFirstConnect 1) = [0x20, 2, 0, 0]"
proof -
  from handleConnect_replaces_slot [OF Decode_connectX registry_ok_NewWithConfig, of 1]
  obtain s' where h: "handleConnect 1 connectX 13 NewWithConfig = (s', Some 0)"
    and r: "registry_ok s'"
    and c: "\<forall>k. (clients s' k = Some 0) = (k = ''x'')"
    and cl: "\<forall>c. closed (conns s' c) = closed (conns NewWithConfig c)"
    and w: "\<forall>c. written (conns s' c)
              = (if c = 1 \<and> \<not> closed (conns NewWithConfig 1)
                 then written (conns NewWithConfig c) @ [0x20, 2, 0, 0]
                 else written (conns NewWithConfig c))"
    by auto
  from h have e: "afterFirstConnect = s'" by (simp add: afterFirstConnect_def)
  have 1: "clients afterFirstConnect ''x'' = Some 0" using c e by simp
  have 2: "\<not> closed (conns afterFirstConnect 1)" using cl e by simp
  have 3: "written (conns afterFirstConnect 1) = [0x20, 2, 0, 0]" using w e by simp
  show ?thesis using 1 2 3 r e registry_ok_NewWithConfig by (simp add: Decode_connectX)
qed

lemma afterFirstConnect_unfold:
  "afterFirstConnect =
     \<lparr>clients = [''x'' \<mapsto> 0], retainedMsgs = Some Map.empty,
      heap = [0 \<mapsto> \<lparr>ID = ''x'', Conn = 1, CleanSession = True, Subscriptions = Map.empty\<rparr>],
      nextClient = 1,
      conns = (\<lambda>c. \<lparr>closed = False, written = []\<rparr>)(1 := \<lparr>closed = False, written = [0x20, 2, 0, 0]\<rparr>),
      pending = []\<rparr>"
  by (simp add: afterFirstConnect_def handleConnect_def Decode_connectX Let_def
        NewWithConfig_def Write_def ConnackPacket_Encode_def CONNACK_def)

text \<open>Claim C5 as stated fails: after a second CONNECT of client \<open>x\<close> on connection 2 the
  slot holds the session of connection 2, the CONNACK has been sent, and connection 1, the
  socket of the prior session, is not closed.\<close>

theorem second_connect_keeps_first_socket_counterexample:
  "clients afterFirstConnect ''x'' = Some 0
   \<and> Conn (the (heap afterFirstConnect 0)) = 1
   \<and> clients afterSecondConnect ''x'' = Some 1
   \<and> Conn (the (heap afterSecondConnect 1)) = 2
   \<and> written (conns afterSecondConnect 2) = [0x20, 2, 0, 0]
   \<and> \<not> closed (conns afterSecondConnect 1)"
  by (simp add: afterSecondConnect_def afterFirstConnect_unfold handleConnect_def Decode_connectX
        Let_def Write_def ConnackPacket_Encode_def CONNACK_def)

section \<open>Properties of SUBSCRIBE\<close>

lemma storeSubscriptions_prefix:
  "k \<le> length topics \<Longrightarrow>
   fold (subscribeStep topics) [0..<k] (subs, replicate (length topics) 0)
   = (fold (\<lambda>sub m. m(Subscription.Topic sub \<mapsto> Subscription.QoS sub)) (take k topics) subs,
      map Subscription.QoS (take k topics) @ replicate (length topics - k) 0)"
proof (induction k)
  case 0
  then show ?case by simp
next
  case (Suc k)
  then have k: "k < length topics" by simp
  have t: "take (Suc k) topics = take k topics @ [topics ! k]"
    using k by (simp add: take_Suc_conv_app_nth)
  have r: "replicate (length topics - k) (0::byte) = 0 # replicate (length topics - Suc k) 0"
    using k by (metis Suc_diff_Suc replicate_Suc)
  have u: "(map Subscription.QoS (take k topics) @ 0 # replicate (length topics - Suc k) 0)
             [k := Subscription.QoS (topics ! k)]
           = map Subscription.QoS (take k topics) @ Subscription.QoS (topics ! k)
               # replicate (length topics - Suc k) 0"
    using k by (simp add: list_update_append)
  show ?case
    using Suc.IH k by (simp add: subscribeStep_def Let_def t r u fun_eq_iff)
qed

lemma storeSubscriptions_eq:
  "storeSubscriptions topics subs
   = (fold (\<lambda>sub m. m(Subscription.Topic sub \<mapsto> Subscription.QoS sub)) topics subs,
      map Subscription.QoS topics)"
  using storeSubscriptions_prefix [of "length topics" topics subs]
  by (simp add: storeSubscriptions_def)

lemma fold_store_last:
  "fold (\<lambda>sub m. m(Subscription.Topic sub \<mapsto> Subscription.QoS sub)) topics subs f
   = (case find (\<lambda>e. Subscription.Topic e = f) (rev topics) of
        Some e \<Rightarrow> Some (Subscription.QoS e)
      | None \<Rightarrow> subs f)"
  by (induction topics rule: rev_induct) auto


lemma string_of_bytes_a: "string_of_bytes [97] = ''a''"
  by code_simp

lemma Decode_subscribeA2:
  "DecodeSubscribePacket subscribeA2 6
   = Inr \<lparr>SubscribePacket.PacketID = 1,
          Topics = [\<lparr>Subscription.Topic = ''a'', QoS = 2\<rparr>]\<rparr>"
proof -
  have 1: "subscribeTopics [] 6 6 ts = Inr ts" for ts
    by (subst subscribeTopics.simps) simp
  have 2: "subscribeTopics [0, 1, 97, 2] 6 2 []
           = Inr [\<lparr>Subscription.Topic = ''a'', QoS = 2\<rparr>]"
    by (subst subscribeTopics.simps)
       (simp add: ReadString_def ReadFull_def bindE_def wrapE_def Uint16_def Let_def
          string_of_bytes_a 1)
  show ?thesis
    by (simp add: DecodeSubscribePacket_def subscribeA2_def ReadFull_def bindE_def Uint16_def 2)
qed

lemma subscribeA2_length: "length subscribeA2 = 6"
  by (simp add: subscribeA2_def)

text \<open>
  Claim C4, as the code has it: for every SUBSCRIBE that decodes, the handler returns; the
  client's subscription map holds, for every filter of the packet, the QoS that the last
  entry with that filter requests, unchanged, and is as before at every other filter; and
  the SUBACK written to the client's connection (when it is open) carries the packet id and
  the requested QoS bytes of the entries, in request order. Neither the server's max QoS
  nor the bound 1 enters.
\<close>

theorem handleSubscribe_grants_requested:
  assumes dec: "DecodeSubscribePacket data (length data) = Inr pkt"
    and cl: "heap s client = Some c"
  shows "\<exists>s' c'. handleSubscribe ord client conn data s = Returned s'
     \<and> heap s' client = Some c'
     \<and> (\<forall>f. Subscriptions c' f
            = (case find (\<lambda>e. Subscription.Topic e = f) (rev (SubscribePacket.Topics pkt)) of
                 Some e \<Rightarrow> Some (Subscription.QoS e)
               | None \<Rightarrow> Subscriptions c f))
     \<and> written (conns s' (Conn c))
         = (if closed (conns s (Conn c)) then written (conns s (Conn c))
            else written (conns s (Conn c))
                 @ SubackPacket_Encode
                     \<lparr>SubackPacket.PacketID = SubscribePacket.PacketID pkt,
                      ReturnCodes = map Subscription.QoS (SubscribePacket.Topics pkt)\<rparr>)"
proof -
  let ?subs = "fold (\<lambda>sub m. m(Subscription.Topic sub \<mapsto> Subscription.QoS sub))
                 (SubscribePacket.Topics pkt) (Subscriptions c)"
  let ?c' = "c\<lparr>Subscriptions := ?subs\<rparr>"
  let ?s1 = "s\<lparr>heap := (heap s)(client \<mapsto> ?c')\<rparr>"
  let ?ack = "SubackPacket_Encode
                \<lparr>SubackPacket.PacketID = SubscribePacket.PacketID pkt,
                 ReturnCodes = map Subscription.QoS (SubscribePacket.Topics pkt)\<rparr>"
  obtain s2 ok where w: "Write (Conn c) ?ack ?s1 = (s2, ok)" by (cases "Write (Conn c) ?ack ?s1")
  let ?s' = "if \<not> ok then s2
             else s2\<lparr>pending := pending s2 @
                    retainedSpawns ord client (SubscribePacket.Topics pkt) s2\<rparr>"
  have h: "handleSubscribe ord client conn data s = Returned ?s'"
    by (simp add: handleSubscribe_def dec cl storeSubscriptions_eq Let_def w)
  have s2: "s2 = fst (Write (Conn c) ?ack ?s1)" using w by simp
  have hp: "heap ?s' client = Some ?c'" by (simp add: s2)
  have wr: "written (conns ?s' (Conn c))
         = (if closed (conns s (Conn c)) then written (conns s (Conn c))
            else written (conns s (Conn c)) @ ?ack)"
    by (simp add: s2 Write_conns)
  have sb: "\<forall>f. Subscriptions ?c' f
            = (case find (\<lambda>e. Subscription.Topic e = f) (rev (SubscribePacket.Topics pkt)) of
                 Some e \<Rightarrow> Some (Subscription.QoS e)
               | None \<Rightarrow> Subscriptions c f)"
    by (simp add: fold_store_last)
  show ?thesis
    apply (rule exI [of _ ?s'])
    apply (rule exI [of _ ?c'])
    using h hp wr sb by blast
qed

text \<open>The theorem of C4 at the SUBSCRIBE of the filter \<open>a\<close> with QoS 2 by client \<open>x\<close>.\<close>

theorem handleSubscribe_grants_requested_witness:
  "DecodeSubscribePacket subscribeA2 (length subscribeA2) \<noteq> Inl EOF
   \<and> heap afterFirstConnect 0 \<noteq> None
   \<and> (\<exists>s' c'. handleSubscribe exampleOrder 0 1 subscribeA2 afterFirstConnect = Returned s'
         \<and> heap s' 0 = Some c' \<and> Subscriptions c' ''a'' = Some 2 \<and> Subscriptions c' ''b'' = None
         \<and> written (conns s' 1) = [0x20, 2, 0, 0, 0x90, 3, 0, 1, 2])"
proof -
  have d: "DecodeSubscribePacket subscribeA2 (length subscribeA2)
           = Inr \<lparr>SubscribePacket.PacketID = 1,
                  Topics = [\<lparr>Subscription.Topic = ''a'', QoS = 2\<rparr>]\<rparr>"
    using Decode_subscribeA2 subscribeA2_length by simp
  have c: "heap afterFirstConnect 0
           = Some \<lparr>ID = ''x'', Conn = 1, CleanSession = True, Subscriptions = Map.empty\<rparr>"
    by (simp add: afterFirstConnect_unfold)
  from handleSubscribe_grants_requested [OF d c, of exampleOrder 1]
  obtain s' c' where h: "handleSubscribe exampleOrder 0 1 subscribeA2 afterFirstConnect = Returned s'"
    and hp: "heap s' 0 = Some c'"
    and sb: "\<forall>f. Subscriptions c' f
            = (case find (\<lambda>e. Subscription.Topic e = f) (rev [\<lparr>Subscription.Topic = ''a'', QoS = 2\<rparr>]) of
                 Some e \<Rightarrow> Some (Subscription.QoS e)
               | None \<Rightarrow> None)"
    and wr: "written (conns s' 1)
         = (if closed (conns afterFirstConnect 1) then written (conns afterFirstConnect 1)
            else written (conns afterFirstConnect 1)
                 @ SubackPacket_Encode \<lparr>SubackPacket.PacketID = 1, ReturnCodes = [2]\<rparr>)"
    by auto
  have 1: "Subscriptions c' ''a'' = Some 2" using sb by simp
  have 2: "Subscriptions c' ''b'' = None" using sb by simp
  have 3: "written (conns s' 1) = [0x20, 2, 0, 0, 0x90, 3, 0, 1, 2]"
    using wr by (simp add: afterFirstConnect_unfold SubackPacket_Encode_def SUBACK_def PutUint16_def)
  show ?thesis using d c h hp 1 2 3 by simp
qed

text \<open>Claim C4 as stated fails: a requested QoS 2 is stored and returned as 2, which is
  more than 1.\<close>

theorem subscribe_qos2_granted_counterexample:
  "(case handleSubscribe exampleOrder 0 1 subscribeA2 afterFirstConnect of
      Panicked \<Rightarrow> False
    | Returned s' \<Rightarrow>
        Subscriptions (the (heap s' 0)) ''a'' = Some 2
        \<and> written (conns s' 1) = [0x20, 2, 0, 0, 0x90, 3, 0, 1, 2])
   \<and> \<not> (2::byte) \<le> 1"
proof -
  have d: "DecodeSubscribePacket subscribeA2 (length subscribeA2)
           = Inr \<lparr>SubscribePacket.PacketID = 1,
                  Topics = [\<lparr>Subscription.Topic = ''a'', QoS = 2\<rparr>]\<rparr>"
    using Decode_subscribeA2 subscribeA2_length by simp
  have n: "\<not> (2::byte) \<le> 1" by (simp add: word_le_nat_alt)
  show ?thesis
    by (simp add: handleSubscribe_def d afterFirstConnect_unfold storeSubscriptions_eq Let_def
          Write_def SubackPacket_Encode_def SUBACK_def PutUint16_def n split: prod.splits)
qed

section \<open>Properties of the retained messages\<close>





lemma routeMessage_fields [simp]:
  "retainedMsgs (routeMessage ord pub s) = retainedMsgs s"
  "heap (routeMessage ord pub s) = heap s"
  "clients (routeMessage ord pub s) = clients s"
  "conns (routeMessage ord pub s) = conns s"
  by (simp_all add: routeMessage_def)

text \<open>The broker that \<open>New\<close> builds has a nil map of retained messages: storing panics.\<close>

lemma storeRetained_New_panics: "storeRetained retainedAB New = Panicked"
  by (simp add: storeRetained_def New_def retainedAB_def)



lemma string_of_bytes_ab: "string_of_bytes [97, 47, 98] = ''a/b''"
  by code_simp


lemma Decode_subscribeAB:
  "DecodeSubscribePacket subscribeAB (length subscribeAB)
   = Inr \<lparr>SubscribePacket.PacketID = 2,
          Topics = [\<lparr>Subscription.Topic = ''a/b'', QoS = 0\<rparr>]\<rparr>"
proof -
  have l: "length subscribeAB = 8" by (simp add: subscribeAB_def)
  have 1: "subscribeTopics [] 8 8 ts = Inr ts" for ts
    by (subst subscribeTopics.simps) simp
  have 2: "subscribeTopics [0, 3, 97, 47, 98, 0] 8 2 []
           = Inr [\<lparr>Subscription.Topic = ''a/b'', QoS = 0\<rparr>]"
    by (subst subscribeTopics.simps)
       (simp add: ReadString_def ReadFull_def bindE_def wrapE_def Uint16_def Let_def
          string_of_bytes_ab 1)
  have "DecodeSubscribePacket subscribeAB 8
        = Inr \<lparr>SubscribePacket.PacketID = 2,
               Topics = [\<lparr>Subscription.Topic = ''a/b'', QoS = 0\<rparr>]\<rparr>"
    by (simp add: DecodeSubscribePacket_def subscribeAB_def ReadFull_def bindE_def Uint16_def 2)
  then show ?thesis by (simp only: l)
qed

text \<open>Before the delete, the same SUBSCRIBE starts the delivery of the retained message.\<close>

lemma subscribe_delivers_retained:
  "(case handleSubscribe exampleOrder 0 1 subscribeAB withRetained of
      Panicked \<Rightarrow> False
    | Returned t' \<Rightarrow> pending t' = [(0, retainedAB, 0)])"
  by (simp add: handleSubscribe_def Decode_subscribeAB withRetained_def afterFirstConnect_unfold
        storeSubscriptions_eq Let_def Write_def retainedSpawns_def exampleOrder_def
        topicMatch_def split: prod.splits)


section \<open>Properties of the routing\<close>

lemma byte_le_3_cases: "(x::byte) \<le> 3 \<Longrightarrow> x = 0 \<or> x = 1 \<or> x = 2 \<or> x = 3"
proof -
  assume "x \<le> 3"
  then have "unat x \<le> 3" by (simp add: word_le_nat_alt)
  then have "unat x = unat (0::byte) \<or> unat x = unat (1::byte) \<or> unat x = unat (2::byte)
             \<or> unat x = unat (3::byte)"
    by simp arith
  then show ?thesis by (simp only: word_unat_eq_iff [symmetric])
qed

lemma deliver_header_qos:
  assumes "PublishPacket.QoS pub \<le> 3"
  shows "drop_bit 1 (hd (deliverBuf pub g) AND 0x0F) AND 0x03 = deliverQoS pub g"
proof -
  have "deliverQoS pub g \<le> PublishPacket.QoS pub" by (auto simp: deliverQoS_def)
  with assms have "deliverQoS pub g \<le> 3" by simp
  then have c: "deliverQoS pub g = 0 \<or> deliverQoS pub g = 1 \<or> deliverQoS pub g = 2
                \<or> deliverQoS pub g = 3"
    by (rule byte_le_3_cases)
  have h: "hd (deliverBuf pub g)
           = (let f0 = push_bit 4 PUBLISH;
                  f1 = (if Dup pub then f0 OR 0x08 else f0);
                  f2 = f1 OR push_bit 1 (deliverQoS pub g)
              in if Retain pub then f2 OR 0x01 else f2)"
    by (simp add: deliverBuf_def Let_def)
  from c show ?thesis
    by (cases "Dup pub"; cases "Retain pub") (auto simp: h PUBLISH_def)
qed

lemma deliverQoS_min: "deliverQoS pub g = min (PublishPacket.QoS pub) g"
  by (auto simp: deliverQoS_def min_def)


lemma routeSubscriptions_find:
  "set ks \<subseteq> dom subs \<Longrightarrow>
   routeSubscriptions a subs ks pub
   = (case find (\<lambda>f. topicMatch f (PublishPacket.Topic pub)) ks of
        None \<Rightarrow> []
      | Some f \<Rightarrow> [(a, pub, the (subs f))])"
  by (induction ks) auto

lemma routeSubscriptions_fst:
  "d \<in> set (routeSubscriptions a subs ks pub) \<Longrightarrow> fst d = a"
  by (induction ks) (auto split: option.splits if_splits)

lemma registry_ok_inj:
  "registry_ok s \<Longrightarrow> clients s k = Some a \<Longrightarrow> clients s k' = Some a \<Longrightarrow> k = k'"
  unfolding registry_ok_def by (metis option.inject)

lemma routeClients_filter:
  assumes ok: "registry_ok s" and k: "clients s k = Some a" and c: "heap s a = Some c"
  shows "distinct ks \<Longrightarrow>
    filter (\<lambda>d. fst d = a) (routeClients ord s ks pub)
    = (if k \<in> set ks
       then routeSubscriptions a (Subscriptions c) (rangeSubscriptions ord (Subscriptions c)) pub
       else [])"
proof (induction ks)
  case Nil
  then show ?case by simp
next
  case (Cons k' ks)
  let ?own = "routeSubscriptions a (Subscriptions c) (rangeSubscriptions ord (Subscriptions c)) pub"
  have own: "filter (\<lambda>d. fst d = a) ?own = ?own"
    by (rule filter_True) (auto dest: routeSubscriptions_fst)
  show ?case
  proof (cases "k' = k")
    case True
    with Cons have "k \<notin> set ks" by simp
    with Cons True k c own show ?thesis by simp
  next
    case False
    show ?thesis
    proof (cases "clients s k'")
      case None
      with Cons False show ?thesis by simp
    next
      case (Some a')
      with ok k False have ne: "a' \<noteq> a" by (auto dest: registry_ok_inj)
      show ?thesis
      proof (cases "heap s a'")
        case None
        with Cons False Some show ?thesis by simp
      next
        case (Some c')
        have "filter (\<lambda>d. fst d = a)
                (routeSubscriptions a' (Subscriptions c')
                   (rangeSubscriptions ord (Subscriptions c')) pub) = []"
          using ne by (auto simp: filter_empty_conv dest: routeSubscriptions_fst)
        with Cons False \<open>clients s k' = Some a'\<close> Some show ?thesis by simp
      qed
    qed
  qed
qed

text \<open>
  Claim C1, as the code has it: \<open>routeMessage\<close> adds its deliveries to the started ones.
  For every session of the registry, whatever the order in which the maps are visited, it
  starts exactly one delivery when at least one of the session's filters matches the topic
  and none otherwise; the delivery carries the publish itself and the QoS of the filter
  that the visit of the session's subscriptions meets first among the matching ones, and
  the PUBLISH that \<open>deliverMessage\<close> writes has in its fixed header the QoS
  \<open>min q g\<close> for that filter's QoS \<open>g\<close>.
\<close>

theorem routeMessage_once_first_match:
  assumes ok: "registry_ok s"
    and rc: "rangeOK (clients s) (rangeClients ord (clients s))"
    and k: "clients s k = Some a" and c: "heap s a = Some c"
    and rs: "rangeOK (Subscriptions c) (rangeSubscriptions ord (Subscriptions c))"
    and q: "PublishPacket.QoS pub \<le> 3"
  shows "pending (routeMessage ord pub s) = pending s @ routeSpawns ord pub s
     \<and> length (filter (\<lambda>d. fst d = a) (routeSpawns ord pub s))
         = (if \<exists>f \<in> dom (Subscriptions c). topicMatch f (PublishPacket.Topic pub) then 1 else 0)
     \<and> (\<forall>d \<in> set (routeSpawns ord pub s). fst d = a \<longrightarrow>
           fst (snd d) = pub
           \<and> (\<exists>f. find (\<lambda>f. topicMatch f (PublishPacket.Topic pub))
                      (rangeSubscriptions ord (Subscriptions c)) = Some f
                  \<and> topicMatch f (PublishPacket.Topic pub)
                  \<and> Subscriptions c f = Some (snd (snd d)))
           \<and> drop_bit 1 (hd (deliverBuf pub (snd (snd d))) AND 0x0F) AND 0x03
               = min (PublishPacket.QoS pub) (snd (snd d)))"
proof -
  let ?ks = "rangeSubscriptions ord (Subscriptions c)"
  let ?P = "\<lambda>f. topicMatch f (PublishPacket.Topic pub)"
  have kin: "k \<in> set (rangeClients ord (clients s))" and dist: "distinct (rangeClients ord (clients s))"
    using rc k by (auto simp: rangeOK_def)
  have sub: "set ?ks \<subseteq> dom (Subscriptions c)" and seq: "set ?ks = dom (Subscriptions c)"
    using rs by (auto simp: rangeOK_def)
  have f: "filter (\<lambda>d. fst d = a) (routeSpawns ord pub s)
           = (case find ?P ?ks of None \<Rightarrow> [] | Some f \<Rightarrow> [(a, pub, the (Subscriptions c f))])"
    unfolding routeSpawns_def
    using routeClients_filter [OF ok k c dist, of ord pub] kin
    by (simp add: routeSubscriptions_find [OF sub])
  have ex: "(\<exists>f \<in> dom (Subscriptions c). ?P f) = (find ?P ?ks \<noteq> None)"
    using seq by (auto simp: find_None_iff)
  have 1: "length (filter (\<lambda>d. fst d = a) (routeSpawns ord pub s))
         = (if \<exists>f \<in> dom (Subscriptions c). ?P f then 1 else 0)"
    unfolding ex f by (simp split: option.splits)
  have 2: "\<forall>d \<in> set (routeSpawns ord pub s). fst d = a \<longrightarrow>
           fst (snd d) = pub
           \<and> (\<exists>f. find ?P ?ks = Some f \<and> ?P f \<and> Subscriptions c f = Some (snd (snd d)))
           \<and> drop_bit 1 (hd (deliverBuf pub (snd (snd d))) AND 0x0F) AND 0x03
               = min (PublishPacket.QoS pub) (snd (snd d))"
  proof (intro ballI impI)
    fix d
    assume "d \<in> set (routeSpawns ord pub s)" and "fst d = a"
    then have "d \<in> set (filter (\<lambda>d. fst d = a) (routeSpawns ord pub s))" by simp
    then obtain f where ff: "find ?P ?ks = Some f" and d: "d = (a, pub, the (Subscriptions c f))"
      unfolding f by (cases "find ?P ?ks") auto
    from ff have "f \<in> set ?ks" and pf: "?P f" by (auto simp: find_Some_iff)
    with seq obtain g where g: "Subscriptions c f = Some g" by auto
    show "fst (snd d) = pub
           \<and> (\<exists>f. find ?P ?ks = Some f \<and> ?P f \<and> Subscriptions c f = Some (snd (snd d)))
           \<and> drop_bit 1 (hd (deliverBuf pub (snd (snd d))) AND 0x0F) AND 0x03
               = min (PublishPacket.QoS pub) (snd (snd d))"
      using d ff pf g deliver_header_qos [OF q, of g] by (simp add: deliverQoS_min)
  qed
  show ?thesis using 1 2 by (simp add: routeMessage_def)
qed


lemma twoFilters_fields:
  "clients twoFilters = [''x'' \<mapsto> 0]"
  "heap twoFilters 0 = Some \<lparr>ID = ''x'', Conn = 1, CleanSession = True,
              Subscriptions = [''a/+'' \<mapsto> 0, ''a/b'' \<mapsto> 1]\<rparr>"
  "nextClient twoFilters = 1"
  by (simp_all add: twoFilters_def afterFirstConnect_unfold)

lemma twoFilters_ok: "registry_ok twoFilters"
  by (auto simp: registry_ok_def twoFilters_def afterFirstConnect_unfold split: if_splits)

lemma twoFilters_ranges:
  "rangeOK (clients twoFilters) (rangeClients exampleOrder (clients twoFilters))"
  "rangeOK [''a/+'' \<mapsto> 0::byte, ''a/b'' \<mapsto> 1]
     (rangeSubscriptions exampleOrder [''a/+'' \<mapsto> 0, ''a/b'' \<mapsto> 1])"
  "rangeSubscriptions exampleOrder [''a/+'' \<mapsto> 0::byte, ''a/b'' \<mapsto> 1] = [''a/+'', ''a/b'']"
  "rangeClients exampleOrder [''x'' \<mapsto> 0] = [''x'']"
  by (auto simp: rangeOK_def exampleOrder_def twoFilters_fields)

lemma match_examples:
  "topicMatch ''a/+'' ''a/b''" "topicMatch ''a/b'' ''a/b''"
  by (simp_all add: topicMatch_levels)

text \<open>The theorem of C1 at the broker with the two filters and the PUBLISH on \<open>a/b\<close>.\<close>

theorem routeMessage_once_first_match_witness:
  "registry_ok twoFilters
   \<and> rangeOK (clients twoFilters) (rangeClients exampleOrder (clients twoFilters))
   \<and> clients twoFilters ''x'' = Some 0
   \<and> PublishPacket.QoS publishAB1 \<le> 3
   \<and> length (filter (\<lambda>d. fst d = 0) (routeSpawns exampleOrder publishAB1 twoFilters)) = 1"
proof -
  have k: "clients twoFilters ''x'' = Some 0" by (simp add: twoFilters_fields)
  have q: "PublishPacket.QoS publishAB1 \<le> 3" by (simp add: publishAB1_def word_le_nat_alt)
  have rs: "rangeOK (Subscriptions \<lparr>ID = ''x'', Conn = 1, CleanSession = True,
              Subscriptions = [''a/+'' \<mapsto> 0, ''a/b'' \<mapsto> 1]\<rparr>)
            (rangeSubscriptions exampleOrder (Subscriptions \<lparr>ID = ''x'', Conn = 1,
              CleanSession = True, Subscriptions = [''a/+'' \<mapsto> 0, ''a/b'' \<mapsto> 1]\<rparr>))"
    using twoFilters_ranges(2) by simp
  have m: "\<exists>f \<in> dom [''a/+'' \<mapsto> 0::byte, ''a/b'' \<mapsto> 1].
             topicMatch f (PublishPacket.Topic publishAB1)"
    using match_examples by (simp add: publishAB1_def)
  from routeMessage_once_first_match
         [OF twoFilters_ok twoFilters_ranges(1) k twoFilters_fields(2) rs q] m
  have "length (filter (\<lambda>d. fst d = 0) (routeSpawns exampleOrder publishAB1 twoFilters)) = 1"
    by simp
  with twoFilters_ok twoFilters_ranges(1) k q show ?thesis by simp
qed

text \<open>Claim C1 as stated fails: both filters of the session match \<open>a/b\<close>, the greatest
  granted QoS among them is 1 and the publish has QoS 1, but when the visit meets \<open>a/+\<close>
  first the one delivery is made with QoS 0.\<close>

theorem first_match_not_max_counterexample:
  "Subscriptions (the (heap twoFilters 0)) ''a/+'' = Some 0
   \<and> Subscriptions (the (heap twoFilters 0)) ''a/b'' = Some 1
   \<and> topicMatch ''a/+'' (PublishPacket.Topic publishAB1)
   \<and> topicMatch ''a/b'' (PublishPacket.Topic publishAB1)
   \<and> rangeOK (Subscriptions (the (heap twoFilters 0)))
        (rangeSubscriptions exampleOrder (Subscriptions (the (heap twoFilters 0))))
   \<and> routeSpawns exampleOrder publishAB1 twoFilters = [(0, publishAB1, 0)]
   \<and> deliverBuf publishAB1 0 = [0x30, 6, 0, 3, 97, 47, 98, 1]
   \<and> drop_bit 1 (hd (deliverBuf publishAB1 0) AND 0x0F) AND 0x03 = 0
   \<and> min (PublishPacket.QoS publishAB1) (max 0 1) = 1"
proof -
  have t: "PublishPacket.Topic publishAB1 = ''a/b''" by (simp add: publishAB1_def)
  have r: "routeSpawns exampleOrder publishAB1 twoFilters = [(0, publishAB1, 0)]"
    using match_examples
    by (simp add: routeSpawns_def twoFilters_fields twoFilters_ranges(3,4) t)
  have b: "deliverBuf publishAB1 0 = [0x30, 6, 0, 3, 97, 47, 98, 1]"
    by (simp add: deliverBuf_def deliverQoS_def publishAB1_def PUBLISH_def Let_def
          WriteString_def PutUint16_def bytes_of_string_def)
  show ?thesis
    using match_examples twoFilters_ranges(2)
    by (simp add: twoFilters_fields t r b) (simp add: publishAB1_def)
qed

section \<open>The registry invariant holds in every state the handlers reach\<close>

text \<open>The invariant holds in the broker that \<open>NewWithConfig\<close> builds
  (\<open>registry_ok_NewWithConfig\<close>), and every handler that returns keeps it; so does the
  whole read loop of a connection, whatever bytes arrive.\<close>

lemma registry_ok_cong:
  "clients s' = clients s \<Longrightarrow> heap s' = heap s \<Longrightarrow> nextClient s' = nextClient s \<Longrightarrow>
   registry_ok s' = registry_ok s"
  by (simp add: registry_ok_def)

lemma registry_ok_Write: "registry_ok (fst (Write c d s)) = registry_ok s"
  by (rule registry_ok_cong) simp_all

lemma registry_ok_Close: "registry_ok (Close c s) = registry_ok s"
  by (rule registry_ok_cong) (simp_all add: Close_def)

lemma registry_ok_subs:
  "registry_ok s \<Longrightarrow> heap s a = Some c \<Longrightarrow>
   registry_ok (s\<lparr>heap := (heap s)(a \<mapsto> c\<lparr>Subscriptions := subs\<rparr>)\<rparr>)"
  unfolding registry_ok_def by (auto; metis option.inject)

lemma registry_ok_pending: "registry_ok (s\<lparr>pending := p\<rparr>) = registry_ok s"
  by (rule registry_ok_cong) simp_all

lemma registry_ok_handleConnect:
  "registry_ok s \<Longrightarrow> registry_ok (fst (handleConnect conn r n s))"
proof (cases "DecodeConnectPacket r n")
  case (Inl e)
  assume "registry_ok s"
  with Inl show ?thesis by (simp add: handleConnect_def registry_ok_Close)
next
  case (Inr pkt)
  assume ok: "registry_ok s"
  then have fresh: "clients s k \<noteq> Some (nextClient s)" for k
    unfolding registry_ok_def by (metis less_irrefl)
  have "registry_ok (s\<lparr>heap := (heap s)(nextClient s \<mapsto>
            \<lparr>ID = ClientID pkt, Conn = conn,
             CleanSession = ConnectPacket.CleanSession pkt, Subscriptions = Map.empty\<rparr>),
          nextClient := nextClient s + 1,
          clients := (clients s)(ClientID pkt \<mapsto> nextClient s)\<rparr>)"
    using ok fresh unfolding registry_ok_def by (auto simp: less_Suc_eq)
  with Inr show ?thesis by (simp add: handleConnect_def Let_def registry_ok_Write)
qed

lemma registry_ok_retained: "registry_ok (s\<lparr>retainedMsgs := r\<rparr>) = registry_ok s"
  by (rule registry_ok_cong) simp_all

lemma registry_ok_storeRetained:
  "registry_ok s \<Longrightarrow> storeRetained p s = Returned s1 \<Longrightarrow> registry_ok s1"
  by (auto simp: storeRetained_def registry_ok_retained split: if_splits option.splits)

lemma registry_ok_routeMessage: "registry_ok (routeMessage ord p s) = registry_ok s"
  by (simp add: routeMessage_def registry_ok_pending)

lemma registry_ok_handlePublish:
  "registry_ok s \<Longrightarrow> handlePublish ord cl h d s = Returned s' \<Longrightarrow> registry_ok s'"
  by (auto simp: handlePublish_def Let_def registry_ok_routeMessage registry_ok_Write
           dest: registry_ok_storeRetained
           split: sum.splits option.splits result.splits if_splits)

lemma registry_ok_handleSubscribe:
  assumes "registry_ok s" and "handleSubscribe ord cl conn d s = Returned s'"
  shows "registry_ok s'"
proof (cases "DecodeSubscribePacket d (length d)")
  case (Inl e)
  with assms show ?thesis by (simp add: handleSubscribe_def)
next
  case (Inr pkt)
  with assms(2) obtain c where c: "heap s cl = Some c"
    by (cases "heap s cl") (simp_all add: handleSubscribe_def)
  obtain subs rc where sr:
    "storeSubscriptions (SubscribePacket.Topics pkt) (Subscriptions c) = (subs, rc)"
    by (cases "storeSubscriptions (SubscribePacket.Topics pkt) (Subscriptions c)")
  let ?s1 = "s\<lparr>heap := (heap s)(cl \<mapsto> c\<lparr>Subscriptions := subs\<rparr>)\<rparr>"
  let ?ack = "SubackPacket_Encode
                \<lparr>SubackPacket.PacketID = SubscribePacket.PacketID pkt, ReturnCodes = rc\<rparr>"
  obtain s2 ok where w: "Write (Conn c) ?ack ?s1 = (s2, ok)" by (cases "Write (Conn c) ?ack ?s1")
  have "registry_ok ?s1" using assms(1) c by (rule registry_ok_subs)
  then have ok2: "registry_ok s2"
    using w registry_ok_Write [of "Conn c" ?ack ?s1] by simp
  from assms(2) Inr c sr w
  have "s' = s2 \<or> s' = s2\<lparr>pending := pending s2 @
               retainedSpawns ord cl (SubscribePacket.Topics pkt) s2\<rparr>"
    by (auto simp: handleSubscribe_def Let_def split: if_splits)
  with ok2 show ?thesis by (auto simp: registry_ok_pending)
qed

lemma registry_ok_handleUnsubscribe:
  assumes "registry_ok s" and "handleUnsubscribe cl d s = Returned s'"
  shows "registry_ok s'"
proof (cases "DecodeUnsubscribePacket d (length d)")
  case (Inl e)
  with assms show ?thesis by (simp add: handleUnsubscribe_def)
next
  case (Inr pkt)
  with assms(2) obtain c where c: "heap s cl = Some c"
    by (cases "heap s cl") (simp_all add: handleUnsubscribe_def)
  from assms(2) Inr c show ?thesis
    using registry_ok_subs [OF assms(1) c]
    by (auto simp: handleUnsubscribe_def Let_def registry_ok_Write)
qed

lemma registry_ok_handlePingreq: "registry_ok (handlePingreq conn s) = registry_ok s"
  by (simp add: handlePingreq_def registry_ok_Write)

lemma registry_ok_loop:
  "registry_ok s \<Longrightarrow> handleConnectionLoop ord conn r client s = Returned s' \<Longrightarrow>
   registry_ok s'"
proof (induction ord conn r client s rule: handleConnectionLoop.induct)
  case (1 ord conn reader client s)
  show ?case
  proof (cases "ReadFixedHeader reader")
    case (Inl e)
    with 1(7,8) show ?thesis by (simp add: handleConnectionLoop.simps [of _ _ reader])
  next
    case (Inr hr)
    obtain header r1 where hr: "hr = (header, r1)" by (cases hr)
    show ?thesis
    proof (cases "if RemainingLen header > 0 then ReadFull r1 (RemainingLen header)
                  else Inr ([], r1)")
      case (Inl e)
      with 1(7,8) Inr hr show ?thesis by (simp add: handleConnectionLoop.simps [of _ _ reader])
    next
      case (Inr dr)
      obtain remainingData r2 where dr: "dr = (remainingData, r2)" by (cases dr)
      note pre = \<open>ReadFixedHeader reader = Inr hr\<close> hr Inr dr
      note unf = handleConnectionLoop.simps [of ord conn reader]
      consider (con) "PacketType header = CONNECT"
        | (pub) "PacketType header \<noteq> CONNECT" "PacketType header = PUBLISH"
        | (sub) "PacketType header \<noteq> CONNECT" "PacketType header \<noteq> PUBLISH"
                "PacketType header = SUBSCRIBE"
        | (uns) "PacketType header \<noteq> CONNECT" "PacketType header \<noteq> PUBLISH"
                "PacketType header \<noteq> SUBSCRIBE" "PacketType header = UNSUBSCRIBE"
        | (pin) "PacketType header \<noteq> CONNECT" "PacketType header \<noteq> PUBLISH"
                "PacketType header \<noteq> SUBSCRIBE" "PacketType header \<noteq> UNSUBSCRIBE"
                "PacketType header = PINGREQ"
        | (dis) "PacketType header \<noteq> CONNECT" "PacketType header \<noteq> PUBLISH"
                "PacketType header \<noteq> SUBSCRIBE" "PacketType header \<noteq> UNSUBSCRIBE"
                "PacketType header \<noteq> PINGREQ" "PacketType header = DISCONNECT"
        | (oth) "PacketType header \<noteq> CONNECT" "PacketType header \<noteq> PUBLISH"
                "PacketType header \<noteq> SUBSCRIBE" "PacketType header \<noteq> UNSUBSCRIBE"
                "PacketType header \<noteq> PINGREQ" "PacketType header \<noteq> DISCONNECT"
        by blast
      then show ?thesis
      proof cases
        case con
        obtain s1 c where hc: "handleConnect conn remainingData (RemainingLen header) s = (s1, c)"
          by (cases "handleConnect conn remainingData (RemainingLen header) s")
        have ok1: "registry_ok s1"
          using registry_ok_handleConnect [OF 1(7), of conn remainingData "RemainingLen header"] hc
          by simp
        show ?thesis
        proof (cases c)
          case None
          with 1(8) pre con hc ok1 show ?thesis by (simp add: unf)
        next
          case (Some a)
          from 1(8) pre con hc Some
          have "handleConnectionLoop ord conn r2 (Some a) s1 = Returned s'" by (simp add: unf)
          with 1(1) [OF pre(1) hr [symmetric] Inr dr [symmetric] con hc [symmetric] Some] ok1
          show ?thesis by simp
        qed
      next
        case pub
        show ?thesis
        proof (cases client)
          case None
          with 1(8) pre pub have "s' = s" by (simp add: unf)
          with 1(7) show ?thesis by simp
        next
          case (Some c)
          with 1(8) pre pub obtain s1 where hp: "handlePublish ord c header remainingData s = Returned s1"
            and rest: "handleConnectionLoop ord conn r2 client s1 = Returned s'"
            by (auto simp: unf split: result.splits)
          have "registry_ok s1" using 1(7) hp by (rule registry_ok_handlePublish)
          with 1(2) [OF pre(1) hr [symmetric] Inr dr [symmetric] pub Some hp] rest
          show ?thesis by simp
        qed
      next
        case sub
        show ?thesis
        proof (cases client)
          case None
          with 1(8) pre sub have "s' = s" by (simp add: unf)
          with 1(7) show ?thesis by simp
        next
          case (Some c)
          with 1(8) pre sub obtain s1 where hp: "handleSubscribe ord c conn remainingData s = Returned s1"
            and rest: "handleConnectionLoop ord conn r2 client s1 = Returned s'"
            by (auto simp: unf split: result.splits)
          have "registry_ok s1" using 1(7) hp by (rule registry_ok_handleSubscribe)
          with 1(3) [OF pre(1) hr [symmetric] Inr dr [symmetric] sub Some hp] rest
          show ?thesis by simp
        qed
      next
        case uns
        show ?thesis
        proof (cases client)
          case None
          with 1(8) pre uns have "s' = s" by (simp add: unf)
          with 1(7) show ?thesis by simp
        next
          case (Some c)
          with 1(8) pre uns obtain s1 where hp: "handleUnsubscribe c remainingData s = Returned s1"
            and rest: "handleConnectionLoop ord conn r2 client s1 = Returned s'"
            by (auto simp: unf split: result.splits)
          have "registry_ok s1" using 1(7) hp by (rule registry_ok_handleUnsubscribe)
          with 1(4) [OF pre(1) hr [symmetric] Inr dr [symmetric] uns Some hp] rest
          show ?thesis by simp
        qed
      next
        case pin
        from 1(8) pre pin
        have rest: "handleConnectionLoop ord conn r2 client (handlePingreq conn s) = Returned s'"
          by (simp add: unf)
        with 1(5) [OF pre(1) hr [symmetric] Inr dr [symmetric] pin] 1(7)
        show ?thesis by (simp add: registry_ok_handlePingreq)
      next
        case dis
        with 1(7,8) pre show ?thesis by (simp add: unf split: option.splits)
      next
        case oth
        from 1(8) pre oth
        have rest: "handleConnectionLoop ord conn r2 client s = Returned s'"
          by (simp add: unf)
        with 1(6) [OF pre(1) hr [symmetric] Inr dr [symmetric] oth] 1(7)
        show ?thesis by simp
      qed
    qed
  qed
qed

lemma registry_ok_handleConnection:
  "registry_ok s \<Longrightarrow> handleConnection ord conn input s = Returned s' \<Longrightarrow> registry_ok s'"
  by (auto simp: handleConnection_def registry_ok_Close split: result.splits
           dest: registry_ok_loop)

end
